theory Spec2Isabelle
  imports Main
begin

section \<open>The watcher command line: a shallow embedding of \<open>main\<close>\<close>

text \<open>
  The program is the command-line front end of the polling file watcher. Its \<open>main\<close>
  parses flags, configures a watcher, and then runs four goroutines: \<open>main\<close> itself
  (which ends up blocked in \<open>w.Start\<close>), the event-reading loop, the signal handler and
  the start-command runner.

  \<^item> The sequential code is written as functions that return the trace of what was
    done (every call into the environment with what it returned, every line of output)
    and either how the process ended or what is handed on.
  \<^item> The watcher package, \<open>os\<close>, \<open>os/exec\<close> and \<open>time\<close> are not part of the file. Their
    operations are parameters of the model, a record of operations over an abstract
    world state, so every theorem holds for any behaviour of theirs.
  \<^item> The event loop is a function of the messages its \<open>select\<close> receives.
  \<^item> The goroutines together are a state machine whose steps are chosen from outside
    (which goroutine runs, which message arrives); theorems about it hold for every
    schedule. A stretch of \<open>main\<close> between two \<open>go\<close> statements is one step, and so is
    one turn of the event loop.
\<close>

subsection \<open>Go strings, and the three \<open>strings\<close> functions \<open>main\<close> calls\<close>

text \<open>
  A Go string is modelled by the sequence of runes (Unicode code points) that
  \<open>range\<close> yields over it. \<open>FieldsFunc\<close> and \<open>TrimSpace\<close> work rune by rune, and
  the separator of \<open>Split\<close> is the single rune \<open>,\<close>.
\<close>

type_synonym rune = nat
type_synonym gostring = "rune list"

definition str :: "string \<Rightarrow> gostring" where
  "str s = map of_char s"

text \<open>\<open>unicode.IsSpace\<close>: the Latin-1 cases, then the White_Space table.\<close>

definition unicode_IsSpace :: "rune \<Rightarrow> bool" where
  "unicode_IsSpace r =
     (if r \<le> 255 then r = 9 \<or> r = 10 \<or> r = 11 \<or> r = 12 \<or> r = 13 \<or> r = 32 \<or> r = 133 \<or> r = 160
      else r = 5760 \<or> (8192 \<le> r \<and> r \<le> 8202) \<or> r = 8232 \<or> r = 8233 \<or> r = 8239
           \<or> r = 8287 \<or> r = 12288)"

text \<open>
  \<open>strings.FieldsFunc(s, f)\<close>: one pass over the runes. \<open>start\<close> is the field that is
  open (Go keeps its start index, negative when none is open), \<open>spans\<close> the fields
  closed so far; the last field may end at the end of the string.
\<close>

fun FieldsFunc_loop ::
  "(rune \<Rightarrow> bool) \<Rightarrow> gostring option \<Rightarrow> gostring list \<Rightarrow> gostring \<Rightarrow> gostring list" where
  "FieldsFunc_loop f start spans [] =
     (case start of Some fld \<Rightarrow> spans @ [fld] | None \<Rightarrow> spans)"
| "FieldsFunc_loop f start spans (r # rs) =
     (if f r then
        (case start of
           Some fld \<Rightarrow> FieldsFunc_loop f None (spans @ [fld]) rs
         | None \<Rightarrow> FieldsFunc_loop f None spans rs)
      else
        (case start of
           None \<Rightarrow> FieldsFunc_loop f (Some [r]) spans rs
         | Some fld \<Rightarrow> FieldsFunc_loop f (Some (fld @ [r])) spans rs))"

definition strings_FieldsFunc :: "gostring \<Rightarrow> (rune \<Rightarrow> bool) \<Rightarrow> gostring list" where
  "strings_FieldsFunc s f = FieldsFunc_loop f None [] s"

text \<open>
  \<open>strings.Split(s, sep)\<close> for a one-rune separator: the pieces between the
  separators, so the empty string gives one empty piece.
\<close>

fun Split_loop :: "rune \<Rightarrow> gostring \<Rightarrow> gostring \<Rightarrow> gostring list" where
  "Split_loop sep cur [] = [cur]"
| "Split_loop sep cur (r # rs) =
     (if r = sep then cur # Split_loop sep [] rs else Split_loop sep (cur @ [r]) rs)"

definition strings_Split :: "gostring \<Rightarrow> rune \<Rightarrow> gostring list" where
  "strings_Split s sep = Split_loop sep [] s"

text \<open>\<open>strings.TrimSpace\<close>: leading and trailing white space removed.\<close>

definition strings_TrimSpace :: "gostring \<Rightarrow> gostring" where
  "strings_TrimSpace s = rev (dropWhile unicode_IsSpace (rev (dropWhile unicode_IsSpace s)))"

subsection \<open>How the process can end\<close>

text \<open>
  An \<open>error\<close> value is compared with \<open>==\<close> against the sentinel
  \<open>watcher.ErrWatchedFileDeleted\<close>; every other error is \<open>OtherError\<close> with its message.
  \<open>log.Fatalln\<close> prints and calls \<open>os.Exit(1)\<close>; an index out of range is a run-time
  panic; \<open>Exit_ok\<close> is the return from \<open>main\<close>.
\<close>

datatype error = ErrWatchedFileDeleted | OtherError string

datatype exit_status = Exit_ok | Exit_fatal error | Exit_panic

text \<open>Go's \<open>xs[i]\<close>: the bounds check is part of the language.\<close>

definition index_go :: "'a list \<Rightarrow> nat \<Rightarrow> exit_status + 'a" where
  "index_go xs i = (if i < length xs then Inr (xs ! i) else Inl Exit_panic)"

text \<open>
  Lines 86 to 94: \<open>cmdName\<close> and \<open>cmdArgs\<close> from the \<open>-cmd\<close> flag. Both stay at their
  zero values when the flag is empty.
\<close>

definition parse_cmd :: "gostring \<Rightarrow> exit_status + (gostring \<times> gostring list)" where
  "parse_cmd c =
     (if c \<noteq> [] then
        (let split = strings_FieldsFunc c unicode_IsSpace in
         case index_go split 0 of
           Inl p \<Rightarrow> Inl p
         | Inr cmdName \<Rightarrow> Inr (cmdName, if length split > 1 then drop 1 split else []))
      else Inr ([], []))"

subsection \<open>Flags, commands and the operations of the environment\<close>

text \<open>The nine flags of lines 62 to 70, after \<open>flag.Parse\<close>, with their defaults.\<close>

record flags =
  interval :: gostring
  recursive :: bool
  dotfiles :: bool
  cmd :: gostring
  startcmd :: bool
  listFiles :: bool
  stdinPipe :: bool
  keepalive :: bool
  ignore :: gostring

definition default_flags :: flags where
  "default_flags =
     \<lparr>interval = str ''100ms'', recursive = True, dotfiles = True, cmd = [],
      startcmd = False, listFiles = False, stdinPipe = False, keepalive = False,
      ignore = []\<rparr>"

text \<open>
  An \<open>exec.Cmd\<close> as \<open>main\<close> builds it: the name, the arguments and where standard
  input comes from (standard output and error are always the process's own).
  \<open>c.Run()\<close> gives back an error or \<open>nil\<close>, and leaves \<open>c.ProcessState\<close> set or
  \<open>nil\<close>; a process state is its exit code, and \<open>Success\<close> holds for code 0.
\<close>

datatype stdin_source = Os_Stdin | Reader gostring

record command =
  Path :: gostring
  Args :: "gostring list"
  Stdin :: stdin_source

type_synonym process_state = int

definition Success :: "process_state \<Rightarrow> bool" where
  "Success ps = (ps = 0)"

record run_result =
  run_err :: "error option"
  ProcessState :: "process_state option"

type_synonym duration = int

text \<open>
  What \<open>main\<close> calls outside its own file, over a world state \<open>'s\<close> (the watcher, the
  file system, the processes) and an event type \<open>'e\<close>. A call that can fail gives back
  its error (\<open>None\<close> for \<open>nil\<close>) and the new world. \<open>w_WatchedFiles\<close> lists the map in
  the order the \<open>range\<close> visits it, each path with its \<open>f.Name()\<close>.
\<close>

record ('s, 'e) world_ops =
  os_Getwd :: "'s \<Rightarrow> error + gostring"
  w_IgnoreHiddenFiles :: "'s \<Rightarrow> bool \<Rightarrow> 's"
  w_Ignore :: "'s \<Rightarrow> gostring \<Rightarrow> error option \<times> 's"
  w_Add :: "'s \<Rightarrow> gostring \<Rightarrow> error option \<times> 's"
  w_AddRecursive :: "'s \<Rightarrow> gostring \<Rightarrow> error option \<times> 's"
  w_WatchedFiles :: "'s \<Rightarrow> (gostring \<times> gostring) list"
  w_Close :: "'s \<Rightarrow> 's"
  time_ParseDuration :: "gostring \<Rightarrow> error + duration"
  cmd_Run :: "'s \<Rightarrow> command \<Rightarrow> run_result \<times> 's"
  event_String :: "'e \<Rightarrow> gostring"

subsection \<open>What the program does, as a trace\<close>

text \<open>
  Every call into the environment and every line of output is an action; a call is
  recorded with what it returned. The \<open>select\<close> of the event loop receives one of
  three messages.
\<close>

datatype 'e select_msg = Msg_Event 'e | Msg_Error error | Msg_Closed

datatype os_signal = Interrupt | Kill

datatype 'e action =
    Call_IgnoreHiddenFiles bool
  | Call_Ignore gostring "error option"
  | Call_Add gostring "error option"
  | Call_AddRecursive gostring "error option"
  | Call_Start duration
  | Call_Close
  | Run_command command run_result
  | Recv "'e select_msg"
  | Recv_signal os_signal
  | Println_event 'e
  | Println_error error
  | Printf_file gostring gostring
  | Println_empty
  | Printf_watching nat
  | Println_watcher_closed
  | Log_Println error
  | Log_Fatalln error

subsection \<open>The sequential code of \<open>main\<close>\<close>

text \<open>Lines 74 to 84: the files to watch, the working directory when none is given.\<close>

definition resolve_files ::
  "('s, 'e) world_ops \<Rightarrow> 's \<Rightarrow> gostring list \<Rightarrow> 'e action list \<times> (exit_status + gostring list)" where
  "resolve_files ops s args =
     (if length args = 0 then
        (case os_Getwd ops s of
           Inl err \<Rightarrow> ([Log_Fatalln err], Inl (Exit_fatal err))
         | Inr curDir \<Rightarrow> ([], Inr (args @ [curDir])))
      else ([], Inr args))"

text \<open>Lines 103 to 113: the loop over the pieces of the \<open>-ignore\<close> flag.\<close>

fun ignore_loop ::
  "('s, 'e) world_ops \<Rightarrow> 's \<Rightarrow> gostring list \<Rightarrow> 'e action list \<times> (exit_status + 's)" where
  "ignore_loop ops s [] = ([], Inr s)"
| "ignore_loop ops s (path # paths) =
     (let trimmed = strings_TrimSpace path in
      if trimmed = [] then ignore_loop ops s paths
      else
        (case w_Ignore ops s trimmed of
           (Some err, s') \<Rightarrow>
             ([Call_Ignore trimmed (Some err), Log_Fatalln err], Inl (Exit_fatal err))
         | (None, s') \<Rightarrow>
             (case ignore_loop ops s' paths of
                (tr, r) \<Rightarrow> (Call_Ignore trimmed None # tr, r))))"

text \<open>
  What the first part of \<open>main\<close> hands on: the files, the parsed command and the world.
\<close>

record 's config =
  cfg_files :: "gostring list"
  cfg_cmdName :: gostring
  cfg_cmdArgs :: "gostring list"
  cfg_world :: 's

text \<open>
  Lines 72 to 113, up to the \<open>go\<close> statement of the event loop. \<open>watcher.New()\<close> is
  the watcher of the world state as given.
\<close>

definition main_init ::
  "('s, 'e) world_ops \<Rightarrow> flags \<Rightarrow> gostring list \<Rightarrow> 's
     \<Rightarrow> 'e action list \<times> (exit_status + 's config)" where
  "main_init ops fl args s =
     (case resolve_files ops s args of
        (tr0, Inl x) \<Rightarrow> (tr0, Inl x)
      | (tr0, Inr files) \<Rightarrow>
          (case parse_cmd (cmd fl) of
             Inl x \<Rightarrow> (tr0, Inl x)
           | Inr (cmdName, cmdArgs) \<Rightarrow>
               (let s1 = w_IgnoreHiddenFiles ops s (\<not> dotfiles fl);
                    ignoredPaths = strings_Split (ignore fl) 44
                in case ignore_loop ops s1 ignoredPaths of
                     (tr, Inl x) \<Rightarrow>
                       (tr0 @ Call_IgnoreHiddenFiles (\<not> dotfiles fl) # tr, Inl x)
                   | (tr, Inr s2) \<Rightarrow>
                       (tr0 @ Call_IgnoreHiddenFiles (\<not> dotfiles fl) # tr,
                        Inr \<lparr>cfg_files = files, cfg_cmdName = cmdName,
                             cfg_cmdArgs = cmdArgs, cfg_world = s2\<rparr>))))"

text \<open>Lines 155 to 166: every file is added, recursively or not as the flag says.\<close>

fun add_loop ::
  "('s, 'e) world_ops \<Rightarrow> flags \<Rightarrow> 's \<Rightarrow> gostring list \<Rightarrow> 'e action list \<times> (exit_status + 's)" where
  "add_loop ops fl s [] = ([], Inr s)"
| "add_loop ops fl s (file # files) =
     (if recursive fl then
        (case w_AddRecursive ops s file of
           (Some err, s') \<Rightarrow>
             ([Call_AddRecursive file (Some err), Log_Fatalln err], Inl (Exit_fatal err))
         | (None, s') \<Rightarrow>
             (case add_loop ops fl s' files of
                (tr, r) \<Rightarrow> (Call_AddRecursive file None # tr, r)))
      else
        (case w_Add ops s file of
           (Some err, s') \<Rightarrow>
             ([Call_Add file (Some err), Log_Fatalln err], Inl (Exit_fatal err))
         | (None, s') \<Rightarrow>
             (case add_loop ops fl s' files of
                (tr, r) \<Rightarrow> (Call_Add file None # tr, r))))"

text \<open>Lines 168 to 176: the optional listing, and the count.\<close>

definition list_files :: "('s, 'e) world_ops \<Rightarrow> flags \<Rightarrow> 's \<Rightarrow> 'e action list" where
  "list_files ops fl s =
     (if listFiles fl then
        map (\<lambda>(path, name). Printf_file path name) (w_WatchedFiles ops s) @ [Println_empty]
      else [])
     @ [Printf_watching (length (w_WatchedFiles ops s))]"

text \<open>Lines 155 to 182: adding, listing and the parse of the interval.\<close>

definition main_add ::
  "('s, 'e) world_ops \<Rightarrow> flags \<Rightarrow> gostring list \<Rightarrow> 's
     \<Rightarrow> 'e action list \<times> (exit_status + duration \<times> 's)" where
  "main_add ops fl files s =
     (case add_loop ops fl s files of
        (tr, Inl x) \<Rightarrow> (tr, Inl x)
      | (tr, Inr s1) \<Rightarrow>
          (case time_ParseDuration ops (interval fl) of
             Inl err \<Rightarrow> (tr @ list_files ops fl s1 @ [Log_Fatalln err], Inl (Exit_fatal err))
           | Inr parsedInterval \<Rightarrow> (tr @ list_files ops fl s1, Inr (parsedInterval, s1))))"

subsection \<open>Running the command\<close>

text \<open>
  Lines 135 to 141, and again lines 203 to 209: \<open>c.Run()\<close> and what follows an error.
  The result is the output, the error that ends the process if there is one, and the
  world.
\<close>

definition no_success :: "run_result \<Rightarrow> bool" where
  "no_success r = (case ProcessState r of None \<Rightarrow> True | Some ps \<Rightarrow> \<not> Success ps)"

definition run_or_die ::
  "('s, 'e) world_ops \<Rightarrow> flags \<Rightarrow> 's \<Rightarrow> command \<Rightarrow> 'e action list \<times> error option \<times> 's" where
  "run_or_die ops fl s c =
     (case cmd_Run ops s c of
        (r, s') \<Rightarrow>
          (case run_err r of
             None \<Rightarrow> ([Run_command c r], None, s')
           | Some err \<Rightarrow>
               if no_success r \<and> keepalive fl
               then ([Run_command c r, Log_Println err], None, s')
               else ([Run_command c r, Log_Fatalln err], Some err, s')))"

subsection \<open>The event loop\<close>

text \<open>
  Lines 119 to 152. The goroutine is in its \<open>select\<close>, has returned (and so closed
  \<open>done\<close>), or has ended the process.
\<close>

datatype loop_status = In_select | Returned | Died exit_status

definition event_command ::
  "('s, 'e) world_ops \<Rightarrow> flags \<Rightarrow> gostring \<Rightarrow> gostring list \<Rightarrow> 'e \<Rightarrow> command" where
  "event_command ops fl cmdName cmdArgs event =
     \<lparr>Path = cmdName, Args = cmdArgs,
      Stdin = (if stdinPipe fl then Reader (event_String ops event) else Os_Stdin)\<rparr>"

definition select_case ::
  "('s, 'e) world_ops \<Rightarrow> flags \<Rightarrow> gostring \<Rightarrow> gostring list \<Rightarrow> 's \<Rightarrow> 'e select_msg
     \<Rightarrow> 'e action list \<times> loop_status \<times> 's" where
  "select_case ops fl cmdName cmdArgs s m =
     (case m of
        Msg_Event event \<Rightarrow>
          if cmd fl \<noteq> [] then
            (case run_or_die ops fl s (event_command ops fl cmdName cmdArgs event) of
               (tr, None, s') \<Rightarrow> (Println_event event # tr, In_select, s')
             | (tr, Some err, s') \<Rightarrow> (Println_event event # tr, Died (Exit_fatal err), s'))
          else ([Println_event event], In_select, s)
      | Msg_Error err \<Rightarrow>
          if err = ErrWatchedFileDeleted then ([Println_error err], In_select, s)
          else ([Log_Fatalln err], Died (Exit_fatal err), s)
      | Msg_Closed \<Rightarrow> ([], Returned, s))"

text \<open>
  The loop over the messages its \<open>select\<close> is given, in the order it receives them.
  When they run out the goroutine is waiting in \<open>select\<close>.
\<close>

fun event_loop ::
  "('s, 'e) world_ops \<Rightarrow> flags \<Rightarrow> gostring \<Rightarrow> gostring list \<Rightarrow> 's \<Rightarrow> 'e select_msg list
     \<Rightarrow> 'e action list \<times> loop_status \<times> 's" where
  "event_loop ops fl cmdName cmdArgs s [] = ([], In_select, s)"
| "event_loop ops fl cmdName cmdArgs s (m # ms) =
     (case select_case ops fl cmdName cmdArgs s m of
        (tr, In_select, s') \<Rightarrow>
          (case event_loop ops fl cmdName cmdArgs s' ms of
             (tr', st, s'') \<Rightarrow> (Recv m # tr @ tr', st, s''))
      | (tr, st, s') \<Rightarrow> (Recv m # tr, st, s'))"

text \<open>The commands a trace ran, and the events it received.\<close>

fun commands_run :: "'e action list \<Rightarrow> command list" where
  "commands_run [] = []"
| "commands_run (Run_command c r # tr) = c # commands_run tr"
| "commands_run (a # tr) = commands_run tr"

fun events_received :: "'e action list \<Rightarrow> 'e list" where
  "events_received [] = []"
| "events_received (Recv (Msg_Event e) # tr) = e # events_received tr"
| "events_received (a # tr) = events_received tr"

subsection \<open>Reading a trace\<close>

text \<open>The calls of \<open>w.Ignore\<close>, of \<open>w.Add\<close> and \<open>w.AddRecursive\<close> in a trace, each with what it
  returned; an \<open>AddRecursive\<close> is marked \<open>True\<close>.\<close>

fun ignore_calls :: "'e action list \<Rightarrow> (gostring \<times> error option) list" where
  "ignore_calls [] = []"
| "ignore_calls (Call_Ignore p r # tr) = (p, r) # ignore_calls tr"
| "ignore_calls (a # tr) = ignore_calls tr"

fun add_calls :: "'e action list \<Rightarrow> (bool \<times> gostring \<times> error option) list" where
  "add_calls [] = []"
| "add_calls (Call_AddRecursive p r # tr) = (True, p, r) # add_calls tr"
| "add_calls (Call_Add p r # tr) = (False, p, r) # add_calls tr"
| "add_calls (a # tr) = add_calls tr"

fun is_Call_Start :: "'e action \<Rightarrow> bool" where
  "is_Call_Start (Call_Start d) = True"
| "is_Call_Start a = False"

text \<open>The pieces of the \<open>-ignore\<close> flag that are not empty once trimmed, trimmed.\<close>

definition ignore_entries :: "flags \<Rightarrow> gostring list" where
  "ignore_entries fl =
     filter (\<lambda>p. p \<noteq> []) (map strings_TrimSpace (strings_Split (ignore fl) 44))"

subsection \<open>The goroutines together\<close>

text \<open>
  \<open>main\<close> starts three goroutines: the event loop (line 116), the signal handler
  (line 188) and the start-command runner (line 197). The state holds where each of
  them stands, the two channels \<open>done\<close> and \<open>closed\<close> (only ever closed), what \<open>main\<close>
  has computed, the trace so far with the goroutine of every action, and the world.
  \<open>exited\<close> is set when the process has ended: by \<open>log.Fatalln\<close> in any goroutine, by
  a panic, or by the return from \<open>main\<close>.
\<close>

datatype goroutine = G_main | G_event | G_signal | G_startcmd

datatype main_pc = M_init | M_add | M_start | M_in_Start | M_wait_closed | M_returned

datatype event_pc = E_not_started | E_in_select | E_returned

datatype signal_pc = S_not_started | S_wait_signal | S_wait_done | S_finished

datatype startcmd_pc = C_not_started | C_ready | C_finished

record ('s, 'e) state =
  exited :: "exit_status option"
  mpc :: main_pc
  epc :: event_pc
  spc :: signal_pc
  cpc :: startcmd_pc
  done_closed :: bool
  closed_closed :: bool
  files :: "gostring list"
  cmdName :: gostring
  cmdArgs :: "gostring list"
  parsedInterval :: duration
  trace :: "(goroutine \<times> 'e action) list"
  world :: 's

definition init :: "'s \<Rightarrow> ('s, 'e) state" where
  "init s =
     \<lparr>exited = None, mpc = M_init, epc = E_not_started, spc = S_not_started,
      cpc = C_not_started, done_closed = False, closed_closed = False, files = [],
      cmdName = [], cmdArgs = [], parsedInterval = 0, trace = [], world = s\<rparr>"

text \<open>
  What happens next is chosen from outside: which goroutine runs, and what the
  environment hands it. The watcher's channels and the signal channel are not
  constrained at all: any message may arrive at any time. \<open>w.Start\<close> blocks \<open>main\<close>
  until the environment lets it return, with an error or with \<open>nil\<close>.
\<close>

datatype 'e sched =
    Run_main
  | Deliver "'e select_msg"
  | Deliver_signal os_signal
  | Run_signal
  | Run_startcmd
  | Start_returns "error option"

definition emit :: "goroutine \<Rightarrow> 'e action list \<Rightarrow> ('s, 'e) state \<Rightarrow> ('s, 'e) state" where
  "emit g tr st = st\<lparr>trace := trace st @ map (Pair g) tr\<rparr>"

text \<open>
  The main goroutine, one stretch of code at a time: lines 72 to 153 (ending with the
  \<open>go\<close> of the event loop), lines 155 to 211 (ending with the \<open>go\<close> of the other two
  goroutines), the call of \<open>w.Start\<close> on line 214, and the receive from \<open>closed\<close> on
  line 218, after which \<open>main\<close> returns and the process ends.
\<close>

definition main_step ::
  "('s, 'e) world_ops \<Rightarrow> flags \<Rightarrow> gostring list \<Rightarrow> ('s, 'e) state \<Rightarrow> ('s, 'e) state" where
  "main_step ops fl args st =
     (case mpc st of
        M_init \<Rightarrow>
          (case main_init ops fl args (world st) of
             (tr, Inl x) \<Rightarrow> (emit G_main tr st)\<lparr>exited := Some x\<rparr>
           | (tr, Inr cfg) \<Rightarrow>
               (emit G_main tr st)
                 \<lparr>files := cfg_files cfg, cmdName := cfg_cmdName cfg,
                  cmdArgs := cfg_cmdArgs cfg, world := cfg_world cfg,
                  epc := E_in_select, mpc := M_add\<rparr>)
      | M_add \<Rightarrow>
          (case main_add ops fl (files st) (world st) of
             (tr, Inl x) \<Rightarrow> (emit G_main tr st)\<lparr>exited := Some x\<rparr>
           | (tr, Inr (d, s')) \<Rightarrow>
               (emit G_main tr st)
                 \<lparr>parsedInterval := d, world := s', spc := S_wait_signal,
                  cpc := C_ready, mpc := M_start\<rparr>)
      | M_start \<Rightarrow> (emit G_main [Call_Start (parsedInterval st)] st)\<lparr>mpc := M_in_Start\<rparr>
      | M_in_Start \<Rightarrow> st
      | M_wait_closed \<Rightarrow>
          if closed_closed st then st\<lparr>mpc := M_returned, exited := Some Exit_ok\<rparr> else st
      | M_returned \<Rightarrow> st)"

text \<open>Line 214: \<open>w.Start\<close> returns; an error is fatal.\<close>

definition start_return ::
  "error option \<Rightarrow> ('s, 'e) state \<Rightarrow> ('s, 'e) state" where
  "start_return r st =
     (if mpc st = M_in_Start then
        (case r of
           Some err \<Rightarrow> (emit G_main [Log_Fatalln err] st)\<lparr>exited := Some (Exit_fatal err)\<rparr>
         | None \<Rightarrow> st\<lparr>mpc := M_wait_closed\<rparr>)
      else st)"

text \<open>
  The event goroutine: one turn of its loop, for the message its \<open>select\<close> receives.
  Returning runs the deferred \<open>close(done)\<close>.
\<close>

definition event_step ::
  "('s, 'e) world_ops \<Rightarrow> flags \<Rightarrow> 'e select_msg \<Rightarrow> ('s, 'e) state \<Rightarrow> ('s, 'e) state" where
  "event_step ops fl m st =
     (if epc st = E_in_select then
        (case select_case ops fl (cmdName st) (cmdArgs st) (world st) m of
           (tr, In_select, s') \<Rightarrow> (emit G_event (Recv m # tr) st)\<lparr>world := s'\<rparr>
         | (tr, Returned, s') \<Rightarrow>
             (emit G_event (Recv m # tr) st)
               \<lparr>world := s', epc := E_returned, done_closed := True\<rparr>
         | (tr, Died x, s') \<Rightarrow>
             (emit G_event (Recv m # tr) st)\<lparr>world := s', exited := Some x\<rparr>)
      else st)"

text \<open>
  The signal goroutine, lines 188 to 194: the receive from \<open>c\<close> and the call of
  \<open>w.Close()\<close>; then, once \<open>done\<close> is closed, the message and \<open>close(closed)\<close>.
  \<open>c\<close> is unbuffered and \<open>signal.Notify\<close> never blocks, so a signal that comes when the
  goroutine is not at its receive is not received: the state stays as it is. What the
  operating system does with a signal the program has not asked for (before line 187),
  or with one that cannot be caught, is not part of the model.
\<close>

definition signal_recv ::
  "('s, 'e) world_ops \<Rightarrow> os_signal \<Rightarrow> ('s, 'e) state \<Rightarrow> ('s, 'e) state" where
  "signal_recv ops sg st =
     (if spc st = S_wait_signal then
        (emit G_signal [Recv_signal sg, Call_Close] st)
          \<lparr>world := w_Close ops (world st), spc := S_wait_done\<rparr>
      else st)"

definition signal_step :: "('s, 'e) state \<Rightarrow> ('s, 'e) state" where
  "signal_step st =
     (if spc st = S_wait_done \<and> done_closed st then
        (emit G_signal [Println_watcher_closed] st)\<lparr>closed_closed := True, spc := S_finished\<rparr>
      else st)"

text \<open>The start-command goroutine, lines 197 to 211.\<close>

definition startcmd_step ::
  "('s, 'e) world_ops \<Rightarrow> flags \<Rightarrow> ('s, 'e) state \<Rightarrow> ('s, 'e) state" where
  "startcmd_step ops fl st =
     (if cpc st = C_ready then
        (if cmd fl \<noteq> [] \<and> startcmd fl then
           (case run_or_die ops fl (world st)
                   \<lparr>Path = cmdName st, Args = cmdArgs st, Stdin = Os_Stdin\<rparr> of
              (tr, None, s') \<Rightarrow> (emit G_startcmd tr st)\<lparr>world := s', cpc := C_finished\<rparr>
            | (tr, Some err, s') \<Rightarrow>
                (emit G_startcmd tr st)\<lparr>world := s', exited := Some (Exit_fatal err)\<rparr>)
         else st\<lparr>cpc := C_finished\<rparr>)
      else st)"

text \<open>One step; nothing moves once the process has ended.\<close>

definition step ::
  "('s, 'e) world_ops \<Rightarrow> flags \<Rightarrow> gostring list \<Rightarrow> ('s, 'e) state \<Rightarrow> 'e sched \<Rightarrow> ('s, 'e) state" where
  "step ops fl args st x =
     (if exited st \<noteq> None then st
      else
        (case x of
           Run_main \<Rightarrow> main_step ops fl args st
         | Deliver m \<Rightarrow> event_step ops fl m st
         | Deliver_signal sg \<Rightarrow> signal_recv ops sg st
         | Run_signal \<Rightarrow> signal_step st
         | Run_startcmd \<Rightarrow> startcmd_step ops fl st
         | Start_returns r \<Rightarrow> start_return r st))"

definition run ::
  "('s, 'e) world_ops \<Rightarrow> flags \<Rightarrow> gostring list \<Rightarrow> 's \<Rightarrow> 'e sched list \<Rightarrow> ('s, 'e) state" where
  "run ops fl args s xs = foldl (step ops fl args) (init s) xs"

text \<open>The actions of one goroutine, in order.\<close>

definition actions_of :: "goroutine \<Rightarrow> (goroutine \<times> 'e action) list \<Rightarrow> 'e action list" where
  "actions_of g tr = map snd (filter (\<lambda>a. fst a = g) tr)"

subsection \<open>A small environment to run the model in\<close>

text \<open>
  A concrete world for the examples: its state counts the commands run so far. The
  path \<open>missing\<close> does not exist, the command \<open>false\<close> exits with status 1, the
  command \<open>nosuch\<close> cannot be started, and an event is its own description.
\<close>

definition demo_path :: "nat \<Rightarrow> gostring \<Rightarrow> error option \<times> nat" where
  "demo_path s p =
     (if p = str ''missing'' then (Some (OtherError ''no such file or directory''), s)
      else (None, s))"

definition demo_Run :: "nat \<Rightarrow> command \<Rightarrow> run_result \<times> nat" where
  "demo_Run s c =
     (if Path c = str ''false''
      then (\<lparr>run_err = Some (OtherError ''exit status 1''), ProcessState = Some 1\<rparr>, Suc s)
      else if Path c = str ''nosuch''
      then (\<lparr>run_err = Some (OtherError ''executable file not found''),
             ProcessState = None\<rparr>, Suc s)
      else (\<lparr>run_err = None, ProcessState = Some 0\<rparr>, Suc s))"

definition demo_ops :: "(nat, gostring) world_ops" where
  "demo_ops =
     \<lparr>os_Getwd = (\<lambda>s. Inr (str ''/home/u'')),
      w_IgnoreHiddenFiles = (\<lambda>s b. s),
      w_Ignore = demo_path,
      w_Add = demo_path,
      w_AddRecursive = demo_path,
      w_WatchedFiles = (\<lambda>s. [(str ''/home/u'', str ''u'')]),
      w_Close = (\<lambda>s. s),
      time_ParseDuration =
        (\<lambda>i. if i = str ''100ms'' then Inr 100000000
             else Inl (OtherError ''invalid duration'')),
      cmd_Run = demo_Run,
      event_String = (\<lambda>e. e)\<rparr>"

definition demo_ops_nowd :: "(nat, gostring) world_ops" where
  "demo_ops_nowd = demo_ops\<lparr>os_Getwd := (\<lambda>s. Inl (OtherError ''getwd: no such directory''))\<rparr>"

subsection \<open>Invariants of the goroutines\<close>

text \<open>
  Where the goroutines can stand together: the event loop exists once \<open>main\<close> is past
  line 116, the other two once it is past line 211.
\<close>

definition pcs_inv :: "('s, 'e) state \<Rightarrow> bool" where
  "pcs_inv st \<longleftrightarrow>
     (epc st = E_not_started \<longleftrightarrow> mpc st = M_init)
     \<and> (spc st = S_not_started \<longleftrightarrow> mpc st = M_init \<or> mpc st = M_add)
     \<and> (cpc st = C_not_started \<longleftrightarrow> mpc st = M_init \<or> mpc st = M_add)"





text \<open>
  What the main goroutine has done, by where it stands: the trace of its first stretch,
  then that of its second, then the call of \<open>w.Start\<close>.
\<close>

definition add_phase ::
  "('s, 'e) world_ops \<Rightarrow> flags \<Rightarrow> ('s, 'e) state \<Rightarrow> 'e action list \<Rightarrow> bool" where
  "add_phase ops fl st rest \<longleftrightarrow>
     (case mpc st of
        M_init \<Rightarrow> False
      | M_add \<Rightarrow>
          rest = []
          \<or> (\<exists>s1 x. main_add ops fl (files st) s1 = (rest, Inl x) \<and> exited st = Some x)
      | M_start \<Rightarrow>
          (\<exists>s1 s2. main_add ops fl (files st) s1 = (rest, Inr (parsedInterval st, s2)))
      | M_in_Start \<Rightarrow>
          (\<exists>s1 s2 tr2. main_add ops fl (files st) s1 = (tr2, Inr (parsedInterval st, s2))
             \<and> (rest = tr2 @ [Call_Start (parsedInterval st)]
                \<or> (\<exists>err. rest = tr2 @ [Call_Start (parsedInterval st), Log_Fatalln err]
                         \<and> exited st = Some (Exit_fatal err))))
      | M_wait_closed \<Rightarrow>
          (\<exists>s1 s2 tr2. main_add ops fl (files st) s1 = (tr2, Inr (parsedInterval st, s2))
             \<and> rest = tr2 @ [Call_Start (parsedInterval st)])
      | M_returned \<Rightarrow>
          (\<exists>s1 s2 tr2. main_add ops fl (files st) s1 = (tr2, Inr (parsedInterval st, s2))
             \<and> rest = tr2 @ [Call_Start (parsedInterval st)]))"

definition main_inv ::
  "('s, 'e) world_ops \<Rightarrow> flags \<Rightarrow> gostring list \<Rightarrow> 's \<Rightarrow> ('s, 'e) state \<Rightarrow> bool" where
  "main_inv ops fl args s st \<longleftrightarrow>
     (case main_init ops fl args s of
        (tr, Inl x) \<Rightarrow>
          mpc st = M_init
          \<and> (if exited st = None then trace st = [] \<and> world st = s
              else exited st = Some x \<and> actions_of G_main (trace st) = tr)
      | (tr, Inr cfg) \<Rightarrow>
          (if mpc st = M_init then exited st = None \<and> trace st = [] \<and> world st = s
           else files st = cfg_files cfg \<and> cmdName st = cfg_cmdName cfg
                \<and> cmdArgs st = cfg_cmdArgs cfg
                \<and> (\<exists>rest. actions_of G_main (trace st) = tr @ rest \<and> add_phase ops fl st rest)))"





subsection \<open>Facts about the string functions\<close>

lemma FieldsFunc_loop_empty:
  "FieldsFunc_loop f start spans s = [] \<longleftrightarrow> start = None \<and> spans = [] \<and> (\<forall>r\<in>set s. f r)"
  by (induction s arbitrary: start spans) (auto split: option.splits)

lemma FieldsFunc_empty:
  "strings_FieldsFunc s f = [] \<longleftrightarrow> (\<forall>r\<in>set s. f r)"
  by (simp add: strings_FieldsFunc_def FieldsFunc_loop_empty)

lemma index_go_0:
  "(\<exists>x. index_go xs 0 = Inr x) \<longleftrightarrow> xs \<noteq> []"
  by (simp add: index_go_def)

lemma parse_cmd_fields:
  "c \<noteq> [] \<Longrightarrow> parse_cmd c = Inr (n, a) \<Longrightarrow> n # a = strings_FieldsFunc c unicode_IsSpace"
  by (cases "strings_FieldsFunc c unicode_IsSpace")
     (auto simp: parse_cmd_def Let_def index_go_def split: if_splits)

subsection \<open>Facts about the sequential code\<close>

lemma ignore_calls_append: "ignore_calls (xs @ ys) = ignore_calls xs @ ignore_calls ys"
  by (induction xs rule: ignore_calls.induct) auto

lemma add_calls_append: "add_calls (xs @ ys) = add_calls xs @ add_calls ys"
  by (induction xs rule: add_calls.induct) auto

lemma ignore_loop_calls:
  "ignore_loop ops s ps = (tr, r) \<Longrightarrow>
     (\<exists>k. map fst (ignore_calls tr) = take k (filter (\<lambda>p. p \<noteq> []) (map strings_TrimSpace ps)))
     \<and> (\<forall>p e. (p, Some e) \<in> set (ignore_calls tr) \<longrightarrow> r = Inl (Exit_fatal e))
     \<and> (\<forall>s'. r = Inr s' \<longrightarrow>
           ignore_calls tr
             = map (\<lambda>p. (p, None)) (filter (\<lambda>p. p \<noteq> []) (map strings_TrimSpace ps)))
     \<and> add_calls tr = [] \<and> (\<forall>a\<in>set tr. \<not> is_Call_Start a)"
proof (induction ps arbitrary: s tr r)
  case Nil
  then show ?case by auto
next
  case (Cons p ps)
  let ?t = "strings_TrimSpace p"
  show ?case
  proof (cases "?t = []")
    case True
    with Cons.prems have "ignore_loop ops s ps = (tr, r)" by simp
    from Cons.IH[OF this] True show ?thesis by simp
  next
    case False
    obtain e s1 where w: "w_Ignore ops s ?t = (e, s1)" by (cases "w_Ignore ops s ?t") auto
    show ?thesis
    proof (cases e)
      case (Some err)
      with Cons.prems False w
      have tr: "tr = [Call_Ignore ?t (Some err), Log_Fatalln err]" and r: "r = Inl (Exit_fatal err)"
        by simp_all
      have "map fst (ignore_calls tr)
              = take 1 (filter (\<lambda>p. p \<noteq> []) (map strings_TrimSpace (p # ps)))"
        using False by (simp add: tr)
      then have "\<exists>k. map fst (ignore_calls tr)
              = take k (filter (\<lambda>p. p \<noteq> []) (map strings_TrimSpace (p # ps)))" by blast
      then show ?thesis by (simp add: tr r)
    next
      case None
      obtain tr1 r1 where il: "ignore_loop ops s1 ps = (tr1, r1)"
        by (cases "ignore_loop ops s1 ps") auto
      with Cons.prems False w None
      have tr: "tr = Call_Ignore ?t None # tr1" and r: "r = r1" by simp_all
      from Cons.IH[OF il] obtain k where
        k: "map fst (ignore_calls tr1) = take k (filter (\<lambda>p. p \<noteq> []) (map strings_TrimSpace ps))"
        and rest: "\<forall>p e. (p, Some e) \<in> set (ignore_calls tr1) \<longrightarrow> r1 = Inl (Exit_fatal e)"
          "\<forall>s'. r1 = Inr s' \<longrightarrow> ignore_calls tr1
             = map (\<lambda>p. (p, None)) (filter (\<lambda>p. p \<noteq> []) (map strings_TrimSpace ps))"
          "add_calls tr1 = []" "\<forall>a\<in>set tr1. \<not> is_Call_Start a"
        by blast
      have "map fst (ignore_calls tr)
              = take (Suc k) (filter (\<lambda>p. p \<noteq> []) (map strings_TrimSpace (p # ps)))"
        using False k by (simp add: tr)
      then have "\<exists>k. map fst (ignore_calls tr)
              = take k (filter (\<lambda>p. p \<noteq> []) (map strings_TrimSpace (p # ps)))" by blast
      with rest False show ?thesis by (simp add: tr r)
    qed
  qed
qed

lemma main_init_calls:
  assumes "main_init ops fl args s = (tr, r)"
  shows "(\<exists>k. map fst (ignore_calls tr) = take k (ignore_entries fl))
     \<and> (\<forall>p e. (p, Some e) \<in> set (ignore_calls tr) \<longrightarrow> r = Inl (Exit_fatal e))
     \<and> (\<forall>cfg. r = Inr cfg \<longrightarrow> ignore_calls tr = map (\<lambda>p. (p, None)) (ignore_entries fl))
     \<and> add_calls tr = [] \<and> (\<forall>a\<in>set tr. \<not> is_Call_Start a)"
proof (cases "resolve_files ops s args")
  case (Pair tr0 r0)
  have tr0: "tr0 = [] \<or> (\<exists>e. tr0 = [Log_Fatalln e] \<and> r0 = Inl (Exit_fatal e))"
    using Pair by (auto simp: resolve_files_def split: if_splits sum.splits)
  have ex0: "\<exists>k. [] = take k (ignore_entries fl)" by (rule exI[of _ 0]) simp
  show ?thesis
  proof (cases r0)
    case (Inl x)
    with assms Pair have "tr = tr0" "r = Inl x" by (simp_all add: main_init_def)
    with tr0 ex0 show ?thesis by auto
  next
    case (Inr fs)
    with tr0 have t0: "tr0 = []" by auto
    show ?thesis
    proof (cases "parse_cmd (cmd fl)")
      case (Inl x)
      with assms Pair Inr have "tr = tr0" "r = Inl x" by (simp_all add: main_init_def)
      with t0 ex0 show ?thesis by auto
    next
      case (Inr na)
      obtain n a where na: "na = (n, a)" by (cases na) auto
      let ?s1 = "w_IgnoreHiddenFiles ops s (\<not> dotfiles fl)"
      obtain tr1 r1 where il: "ignore_loop ops ?s1 (strings_Split (ignore fl) 44) = (tr1, r1)"
        by (cases "ignore_loop ops ?s1 (strings_Split (ignore fl) 44)") auto
      from assms Pair \<open>r0 = Inr fs\<close> Inr na il t0
      have tr: "tr = Call_IgnoreHiddenFiles (\<not> dotfiles fl) # tr1"
        and r: "(\<forall>x. r1 = Inl x \<longrightarrow> r = Inl x) \<and> (\<forall>s2. r1 = Inr s2 \<longrightarrow> (\<exists>cfg. r = Inr cfg))"
        by (auto simp: main_init_def Let_def split: sum.splits)
      from ignore_loop_calls[OF il] r show ?thesis
        by (cases r1) (auto simp: tr ignore_entries_def)
    qed
  qed
qed


lemma add_loop_calls:
  "add_loop ops fl s fs = (tr, r) \<Longrightarrow>
     (\<exists>k. map (\<lambda>(b, p, e). (b, p)) (add_calls tr) = take k (map (Pair (recursive fl)) fs))
     \<and> (\<forall>b p e. (b, p, Some e) \<in> set (add_calls tr) \<longrightarrow> r = Inl (Exit_fatal e))
     \<and> (\<forall>s'. r = Inr s' \<longrightarrow> add_calls tr = map (\<lambda>p. (recursive fl, p, None)) fs)
     \<and> ignore_calls tr = [] \<and> (\<forall>a\<in>set tr. \<not> is_Call_Start a)"
proof (induction fs arbitrary: s tr r)
  case Nil
  then show ?case by auto
next
  case (Cons f fs)
  let ?call = "if recursive fl then w_AddRecursive ops s f else w_Add ops s f"
  let ?act = "\<lambda>e. if recursive fl then Call_AddRecursive f e else Call_Add f e"
  obtain e s1 where w: "?call = (e, s1)" by (cases ?call) auto
  show ?case
  proof (cases e)
    case (Some err)
    with Cons.prems w
    have tr: "tr = [?act (Some err), Log_Fatalln err]" and r: "r = Inl (Exit_fatal err)"
      by (auto split: if_splits)
    have "map (\<lambda>(b, p, e). (b, p)) (add_calls tr) = take 1 (map (Pair (recursive fl)) (f # fs))"
      by (simp add: tr)
    then have "\<exists>k. map (\<lambda>(b, p, e). (b, p)) (add_calls tr)
                 = take k (map (Pair (recursive fl)) (f # fs))" by blast
    then show ?thesis by (simp add: tr r)
  next
    case None
    obtain tr1 r1 where al: "add_loop ops fl s1 fs = (tr1, r1)"
      by (cases "add_loop ops fl s1 fs") auto
    with Cons.prems w None
    have tr: "tr = ?act None # tr1" and r: "r = r1" by (auto split: if_splits)
    from Cons.IH[OF al] obtain k where
      k: "map (\<lambda>(b, p, e). (b, p)) (add_calls tr1) = take k (map (Pair (recursive fl)) fs)"
      and rest: "\<forall>b p e. (b, p, Some e) \<in> set (add_calls tr1) \<longrightarrow> r1 = Inl (Exit_fatal e)"
        "\<forall>s'. r1 = Inr s' \<longrightarrow> add_calls tr1 = map (\<lambda>p. (recursive fl, p, None)) fs"
        "ignore_calls tr1 = []" "\<forall>a\<in>set tr1. \<not> is_Call_Start a"
      by blast
    have "map (\<lambda>(b, p, e). (b, p)) (add_calls tr)
            = take (Suc k) (map (Pair (recursive fl)) (f # fs))"
      using k by (simp add: tr)
    then have "\<exists>k. map (\<lambda>(b, p, e). (b, p)) (add_calls tr)
                 = take k (map (Pair (recursive fl)) (f # fs))" by blast
    with rest show ?thesis by (simp add: tr r)
  qed
qed

lemma printf_files_calls:
  "add_calls (map (\<lambda>(path, name). Printf_file path name) xs) = []
   \<and> ignore_calls (map (\<lambda>(path, name). Printf_file path name) xs) = []"
  by (induction xs) auto

lemma list_files_calls:
  "add_calls (list_files ops fl s) = [] \<and> ignore_calls (list_files ops fl s) = []
   \<and> (\<forall>a\<in>set (list_files ops fl s). \<not> is_Call_Start a)"
  by (auto simp: list_files_def printf_files_calls add_calls_append ignore_calls_append)

lemma main_add_calls:
  assumes "main_add ops fl fs s = (tr, r)"
  shows "(\<exists>k. map (\<lambda>(b, p, e). (b, p)) (add_calls tr) = take k (map (Pair (recursive fl)) fs))
     \<and> (\<forall>b p e. (b, p, Some e) \<in> set (add_calls tr) \<longrightarrow> r = Inl (Exit_fatal e))
     \<and> (\<forall>d s'. r = Inr (d, s') \<longrightarrow> add_calls tr = map (\<lambda>p. (recursive fl, p, None)) fs)
     \<and> ignore_calls tr = [] \<and> (\<forall>a\<in>set tr. \<not> is_Call_Start a)"
proof -
  obtain tr1 r1 where al: "add_loop ops fl s fs = (tr1, r1)"
    by (cases "add_loop ops fl s fs") auto
  note L = add_loop_calls[OF al]
  show ?thesis
  proof (cases r1)
    case (Inl x)
    with assms al have "tr = tr1" "r = Inl x" by (simp_all add: main_add_def)
    with L Inl show ?thesis by simp
  next
    case (Inr s1)
    with assms al have
      "(\<exists>err. tr = tr1 @ list_files ops fl s1 @ [Log_Fatalln err] \<and> r = Inl (Exit_fatal err))
       \<or> (\<exists>d. tr = tr1 @ list_files ops fl s1 \<and> r = Inr (d, s1))"
      by (auto simp: main_add_def split: sum.splits)
    with L Inr list_files_calls[of ops fl s1] show ?thesis
      by (auto simp: add_calls_append ignore_calls_append)
  qed
qed

subsection \<open>Facts about the event loop\<close>

lemma event_loop_append:
  "event_loop ops fl n a s (pre @ post) =
     (case event_loop ops fl n a s pre of
        (tr, In_select, s') \<Rightarrow>
          (case event_loop ops fl n a s' post of (tr', st, s'') \<Rightarrow> (tr @ tr', st, s''))
      | (tr, st, s') \<Rightarrow> (tr, st, s'))"
  by (induction pre arbitrary: s) (auto split: prod.splits loop_status.splits)

lemma event_loop_reach:
  assumes "event_loop ops fl n a s pre = (tr, In_select, s')"
  shows "event_loop ops fl n a s (pre @ m # post) =
     (case select_case ops fl n a s' m of
        (tr1, In_select, s1) \<Rightarrow>
          (case event_loop ops fl n a s1 post of
             (tr2, st, s2) \<Rightarrow> (tr @ Recv m # tr1 @ tr2, st, s2))
      | (tr1, st, s1) \<Rightarrow> (tr @ Recv m # tr1, st, s1))"
  using assms by (simp add: event_loop_append split: prod.splits loop_status.splits)

lemma commands_run_append: "commands_run (xs @ ys) = commands_run xs @ commands_run ys"
  by (induction xs rule: commands_run.induct) auto

lemma events_received_append: "events_received (xs @ ys) = events_received xs @ events_received ys"
  by (induction xs rule: events_received.induct) auto

lemma select_case_event_commands:
  "select_case ops fl n a s (Msg_Event ev) = (tr, st, s') \<Longrightarrow>
   commands_run tr = (if cmd fl \<noteq> [] then [event_command ops fl n a ev] else [])
   \<and> events_received tr = []"
  by (auto simp: select_case_def run_or_die_def split: prod.splits option.splits if_splits)

lemma select_case_other_commands:
  "select_case ops fl n a s m = (tr, st, s') \<Longrightarrow> (\<forall>ev. m \<noteq> Msg_Event ev) \<Longrightarrow>
   commands_run tr = [] \<and> events_received tr = []"
  by (cases m) (auto simp: select_case_def split: if_splits)

lemma event_loop_commands:
  "event_loop ops fl n a s ms = (tr, st, s') \<Longrightarrow>
   commands_run tr =
     (if cmd fl \<noteq> [] then map (event_command ops fl n a) (events_received tr) else [])"
proof (induction ms arbitrary: s tr st s')
  case Nil
  then show ?case by simp
next
  case (Cons m ms)
  obtain tr1 st1 s1 where sc: "select_case ops fl n a s m = (tr1, st1, s1)"
    by (cases "select_case ops fl n a s m") auto
  show ?case
  proof (cases m)
    case (Msg_Event ev)
    from select_case_event_commands[OF sc[unfolded Msg_Event]]
    have c1: "commands_run tr1 = (if cmd fl \<noteq> [] then [event_command ops fl n a ev] else [])"
      and e1: "events_received tr1 = []" by auto
    show ?thesis
    proof (cases st1)
      case In_select
      obtain tr2 st2 s2 where el: "event_loop ops fl n a s1 ms = (tr2, st2, s2)"
        by (cases "event_loop ops fl n a s1 ms") auto
      from Cons.prems sc In_select el have tr: "tr = Recv m # tr1 @ tr2" by simp
      from Cons.IH[OF el] c1 e1 show ?thesis
        by (simp add: tr Msg_Event commands_run_append events_received_append)
    next
      case Returned
      with Cons.prems sc have "tr = Recv m # tr1" by simp
      with c1 e1 show ?thesis by (simp add: Msg_Event)
    next
      case (Died x)
      with Cons.prems sc have "tr = Recv m # tr1" by simp
      with c1 e1 show ?thesis by (simp add: Msg_Event)
    qed
  next
    case (Msg_Error err)
    from select_case_other_commands[OF sc] Msg_Error
    have c1: "commands_run tr1 = []" and e1: "events_received tr1 = []" by auto
    show ?thesis
    proof (cases st1)
      case In_select
      obtain tr2 st2 s2 where el: "event_loop ops fl n a s1 ms = (tr2, st2, s2)"
        by (cases "event_loop ops fl n a s1 ms") auto
      from Cons.prems sc In_select el have tr: "tr = Recv m # tr1 @ tr2" by simp
      from Cons.IH[OF el] c1 e1 show ?thesis
        by (simp add: tr Msg_Error commands_run_append events_received_append)
    next
      case Returned
      with Cons.prems sc have "tr = Recv m # tr1" by simp
      with c1 e1 show ?thesis by (simp add: Msg_Error)
    next
      case (Died x)
      with Cons.prems sc have "tr = Recv m # tr1" by simp
      with c1 e1 show ?thesis by (simp add: Msg_Error)
    qed
  next
    case Msg_Closed
    with Cons.prems have "tr = [Recv Msg_Closed]" by (simp add: select_case_def)
    then show ?thesis by simp
  qed
qed

subsection \<open>Facts about the goroutines\<close>

lemma run_snoc: "run ops fl args s (xs @ [x]) = step ops fl args (run ops fl args s xs) x"
  by (simp add: run_def)

lemma run_Nil: "run ops fl args s [] = init s"
  by (simp add: run_def)

lemma actions_of_Nil: "actions_of g [] = []"
  by (simp add: actions_of_def)

lemma actions_of_emit:
  "actions_of g (trace (emit g' tr st)) = actions_of g (trace st) @ (if g = g' then tr else [])"
  by (induction tr) (auto simp: actions_of_def emit_def)

lemma emit_fields:
  "exited (emit g tr st) = exited st" "mpc (emit g tr st) = mpc st"
  "epc (emit g tr st) = epc st" "spc (emit g tr st) = spc st" "cpc (emit g tr st) = cpc st"
  "done_closed (emit g tr st) = done_closed st" "closed_closed (emit g tr st) = closed_closed st"
  "files (emit g tr st) = files st" "cmdName (emit g tr st) = cmdName st"
  "cmdArgs (emit g tr st) = cmdArgs st" "parsedInterval (emit g tr st) = parsedInterval st"
  "world (emit g tr st) = world st"
  by (simp_all add: emit_def)









lemma pcs_inv_init: "pcs_inv (init s)"
  by (simp add: pcs_inv_def init_def)

lemma pcs_inv_step: "pcs_inv st \<Longrightarrow> pcs_inv (step ops fl args st x)"
proof (cases x)
  case Run_main
  assume "pcs_inv st"
  then show ?thesis
    by (cases "mpc st")
       (auto simp: Run_main step_def pcs_inv_def main_step_def emit_fields
          split: prod.splits sum.splits)
next
  case (Deliver m)
  assume "pcs_inv st"
  then show ?thesis
    by (auto simp: Deliver step_def pcs_inv_def event_step_def emit_fields
          split: prod.splits loop_status.splits)
next
  case (Deliver_signal sg)
  assume "pcs_inv st"
  then show ?thesis
    by (auto simp: Deliver_signal step_def pcs_inv_def signal_recv_def emit_fields)
next
  case Run_signal
  assume "pcs_inv st"
  then show ?thesis
    by (auto simp: Run_signal step_def pcs_inv_def signal_step_def emit_fields)
next
  case Run_startcmd
  assume "pcs_inv st"
  then show ?thesis
    by (auto simp: Run_startcmd step_def pcs_inv_def startcmd_step_def emit_fields
          split: prod.splits option.splits)
next
  case (Start_returns r)
  assume "pcs_inv st"
  then show ?thesis
    by (auto simp: Start_returns step_def pcs_inv_def start_return_def emit_fields
          split: option.splits)
qed

lemma pcs_inv_run: "pcs_inv (run ops fl args s xs)"
  by (induction xs rule: rev_induct)
     (simp_all add: run_Nil run_snoc pcs_inv_init pcs_inv_step)














lemma step_spc_finished:
  "spc st = S_finished \<Longrightarrow> pcs_inv st \<Longrightarrow> spc (step ops fl args st x) = S_finished"
  by (cases x; cases "mpc st")
     (auto simp: step_def main_step_def event_step_def signal_recv_def signal_step_def
        startcmd_step_def start_return_def emit_fields pcs_inv_def
        split: prod.splits sum.splits option.splits loop_status.splits)




lemma main_inv_init: "main_inv ops fl args s (init s)"
  by (simp add: main_inv_def init_def split: prod.splits sum.splits)

lemma actions_of_map_Pair: "actions_of g (map (Pair g) tr) = tr"
  by (induction tr) (auto simp: actions_of_def)

lemma main_inv_frame:
  assumes "main_inv ops fl args s st" and "mpc st \<noteq> M_init"
    and "mpc st' = mpc st" "files st' = files st" "cmdName st' = cmdName st"
    "cmdArgs st' = cmdArgs st" "parsedInterval st' = parsedInterval st"
    "actions_of G_main (trace st') = actions_of G_main (trace st)"
    "exited st \<noteq> None \<longrightarrow> exited st' = exited st"
  shows "main_inv ops fl args s st'"
proof (cases "main_init ops fl args s")
  case (Pair tr r)
  show ?thesis
  proof (cases r)
    case (Inl x)
    with assms Pair show ?thesis by (simp add: main_inv_def)
  next
    case (Inr cfg)
    with assms(1,2) Pair obtain rest where
      a: "files st = cfg_files cfg" "cmdName st = cfg_cmdName cfg" "cmdArgs st = cfg_cmdArgs cfg"
        "actions_of G_main (trace st) = tr @ rest" and ap: "add_phase ops fl st rest"
      by (auto simp: main_inv_def)
    have "add_phase ops fl st' rest"
    proof (cases "mpc st")
      case M_init
      with assms(2) show ?thesis by simp
    next
      case M_add
      with ap assms(3-) show ?thesis by (simp add: add_phase_def) metis
    next
      case M_start
      with ap assms(3-) show ?thesis by (simp add: add_phase_def)
    next
      case M_in_Start
      with ap assms(3-) show ?thesis by (simp add: add_phase_def) metis
    next
      case M_wait_closed
      with ap assms(3-) show ?thesis by (simp add: add_phase_def)
    next
      case M_returned
      with ap assms(3-) show ?thesis by (simp add: add_phase_def)
    qed
    with a assms(2-) Pair Inr show ?thesis by (auto simp: main_inv_def)
  qed
qed


lemma main_inv_main_step:
  assumes inv: "main_inv ops fl args s st" and alive: "exited st = None"
  shows "main_inv ops fl args s (main_step ops fl args st)"
proof (cases "main_init ops fl args s")
  case (Pair tr r)
  show ?thesis
  proof (cases r)
    case (Inl x)
    with inv Pair alive have "mpc st = M_init" "trace st = []" "world st = s"
      by (auto simp: main_inv_def)
    with Pair Inl show ?thesis
      by (simp add: main_inv_def main_step_def emit_def actions_of_map_Pair)
  next
    case (Inr cfg)
    show ?thesis
    proof (cases "mpc st")
      case M_init
      with inv Pair Inr have "trace st = []" "world st = s" by (auto simp: main_inv_def)
      with Pair Inr M_init show ?thesis
        by (simp add: main_inv_def main_step_def emit_def actions_of_map_Pair add_phase_def)
    next
      case M_add
      with inv Pair Inr alive have
        a: "files st = cfg_files cfg" "cmdName st = cfg_cmdName cfg"
          "cmdArgs st = cfg_cmdArgs cfg" "actions_of G_main (trace st) = tr"
        by (auto simp: main_inv_def add_phase_def)
      obtain tr2 r2 where ma: "main_add ops fl (files st) (world st) = (tr2, r2)"
        by (cases "main_add ops fl (files st) (world st)") auto
      show ?thesis
      proof (cases r2)
        case (Inl x)
        have "add_phase ops fl ((emit G_main tr2 st)\<lparr>exited := Some x\<rparr>) tr2"
          using ma Inl M_add by (auto simp: add_phase_def emit_fields emit_def)
        with Pair Inr M_add a ma Inl show ?thesis
          by (simp add: main_inv_def main_step_def emit_fields actions_of_emit)
      next
        case (Inr ds)
        obtain d s2 where ds: "ds = (d, s2)" by (cases ds) auto
        have "add_phase ops fl
                ((emit G_main tr2 st)\<lparr>parsedInterval := d, world := s2, spc := S_wait_signal,
                   cpc := C_ready, mpc := M_start\<rparr>) tr2"
          using ma Inr ds by (auto simp: add_phase_def emit_fields emit_def)
        with Pair \<open>r = Inr cfg\<close> M_add a ma Inr ds show ?thesis
          by (simp add: main_inv_def main_step_def emit_fields actions_of_emit)
      qed
    next
      case M_start
      with inv Pair Inr obtain rest s1 s2 where
        a: "files st = cfg_files cfg" "cmdName st = cfg_cmdName cfg"
          "cmdArgs st = cfg_cmdArgs cfg" "actions_of G_main (trace st) = tr @ rest"
          "main_add ops fl (files st) s1 = (rest, Inr (parsedInterval st, s2))"
        by (auto simp: main_inv_def add_phase_def)
      have "add_phase ops fl
              ((emit G_main [Call_Start (parsedInterval st)] st)\<lparr>mpc := M_in_Start\<rparr>)
              (rest @ [Call_Start (parsedInterval st)])"
        using a(5) by (auto simp: add_phase_def emit_fields emit_def)
      with Pair Inr M_start a show ?thesis
        by (simp add: main_inv_def main_step_def emit_fields actions_of_emit)
    next
      case M_in_Start
      with inv show ?thesis by (simp add: main_step_def)
    next
      case M_wait_closed
      show ?thesis
      proof (cases "closed_closed st")
        case False
        with inv M_wait_closed show ?thesis by (simp add: main_step_def)
      next
        case True
        from inv Pair Inr M_wait_closed obtain rest where
          a: "files st = cfg_files cfg" "cmdName st = cfg_cmdName cfg"
            "cmdArgs st = cfg_cmdArgs cfg" "actions_of G_main (trace st) = tr @ rest"
            "add_phase ops fl st rest"
          by (auto simp: main_inv_def)
        have "add_phase ops fl (st\<lparr>mpc := M_returned, exited := Some Exit_ok\<rparr>) rest"
          using a(5) M_wait_closed by (simp add: add_phase_def)
        with Pair Inr M_wait_closed a True show ?thesis
          by (auto simp: main_inv_def main_step_def)
      qed
    next
      case M_returned
      with inv show ?thesis by (simp add: main_step_def)
    qed
  qed
qed

lemma main_inv_start_return:
  assumes inv: "main_inv ops fl args s st" and alive: "exited st = None"
  shows "main_inv ops fl args s (start_return r st)"
proof (cases "mpc st = M_in_Start")
  case False
  with inv show ?thesis by (simp add: start_return_def)
next
  case True
  obtain tr r0 where Pair: "main_init ops fl args s = (tr, r0)"
    by (cases "main_init ops fl args s") auto
  from inv Pair True obtain cfg where Inr: "r0 = Inr cfg"
    by (cases r0) (auto simp: main_inv_def)
  from inv Pair Inr True alive obtain s1 s2 tr2 where
    a: "files st = cfg_files cfg" "cmdName st = cfg_cmdName cfg"
      "cmdArgs st = cfg_cmdArgs cfg"
      "actions_of G_main (trace st) = tr @ tr2 @ [Call_Start (parsedInterval st)]"
      "main_add ops fl (files st) s1 = (tr2, Inr (parsedInterval st, s2))"
    by (auto simp: main_inv_def add_phase_def)
  show ?thesis
  proof (cases r)
    case None
    have "add_phase ops fl (st\<lparr>mpc := M_wait_closed\<rparr>)
            (tr2 @ [Call_Start (parsedInterval st)])"
      using a(5) by (auto simp: add_phase_def)
    with Pair Inr True a None show ?thesis
      by (auto simp: main_inv_def start_return_def)
  next
    case (Some err)
    have "add_phase ops fl
            ((emit G_main [Log_Fatalln err] st)\<lparr>exited := Some (Exit_fatal err)\<rparr>)
            (tr2 @ [Call_Start (parsedInterval st), Log_Fatalln err])"
      using a(5) True by (auto simp: add_phase_def emit_fields emit_def)
    with Pair Inr True a Some show ?thesis
      by (simp add: main_inv_def start_return_def emit_fields actions_of_emit)
  qed
qed

lemma main_inv_step:
  assumes inv: "main_inv ops fl args s st" and pcs: "pcs_inv st"
  shows "main_inv ops fl args s (step ops fl args st x)"
proof (cases "exited st = None")
  case False
  with inv show ?thesis by (simp add: step_def)
next
  case alive: True
  show ?thesis
  proof (cases x)
    case Run_main
    with alive main_inv_main_step[OF inv alive] show ?thesis by (simp add: step_def)
  next
    case (Start_returns r)
    with alive main_inv_start_return[OF inv alive] show ?thesis by (simp add: step_def)
  next
    case (Deliver m)
    show ?thesis
    proof (cases "mpc st = M_init")
      case True
      with pcs have "epc st = E_not_started" by (simp add: pcs_inv_def)
      with inv alive Deliver show ?thesis by (simp add: step_def event_step_def)
    next
      case False
      have "main_inv ops fl args s (event_step ops fl m st)"
        by (rule main_inv_frame[OF inv False])
           (auto simp: event_step_def emit_fields actions_of_emit alive
              split: prod.splits loop_status.splits)
      with alive Deliver show ?thesis by (simp add: step_def)
    qed
  next
    case (Deliver_signal sg)
    show ?thesis
    proof (cases "mpc st = M_init")
      case True
      with pcs have "spc st = S_not_started" by (simp add: pcs_inv_def)
      with inv alive Deliver_signal show ?thesis by (simp add: step_def signal_recv_def)
    next
      case False
      have "main_inv ops fl args s (signal_recv ops sg st)"
        by (rule main_inv_frame[OF inv False])
           (auto simp: signal_recv_def emit_fields actions_of_emit alive)
      with alive Deliver_signal show ?thesis by (simp add: step_def)
    qed
  next
    case Run_signal
    show ?thesis
    proof (cases "mpc st = M_init")
      case True
      with pcs have "spc st = S_not_started" by (simp add: pcs_inv_def)
      with inv alive Run_signal show ?thesis by (simp add: step_def signal_step_def)
    next
      case False
      have "main_inv ops fl args s (signal_step st)"
        by (rule main_inv_frame[OF inv False])
           (auto simp: signal_step_def emit_fields actions_of_emit alive)
      with alive Run_signal show ?thesis by (simp add: step_def)
    qed
  next
    case Run_startcmd
    show ?thesis
    proof (cases "mpc st = M_init")
      case True
      with pcs have "cpc st = C_not_started" by (simp add: pcs_inv_def)
      with inv alive Run_startcmd show ?thesis by (simp add: step_def startcmd_step_def)
    next
      case False
      have "main_inv ops fl args s (startcmd_step ops fl st)"
        by (rule main_inv_frame[OF inv False])
           (auto simp: startcmd_step_def emit_fields actions_of_emit alive
              split: prod.splits option.splits)
      with alive Run_startcmd show ?thesis by (simp add: step_def)
    qed
  qed
qed

lemma main_inv_run: "main_inv ops fl args s (run ops fl args s xs)"
  by (induction xs rule: rev_induct)
     (simp_all add: run_Nil run_snoc main_inv_init main_inv_step pcs_inv_run)

lemma ignore_calls_Nil_iff: "ignore_calls tr = [] \<longleftrightarrow> (\<forall>p r. Call_Ignore p r \<notin> set tr)"
  by (induction tr rule: ignore_calls.induct) auto

lemma no_start_dropWhile:
  "\<forall>a\<in>set tr. \<not> is_Call_Start a \<Longrightarrow> dropWhile (\<lambda>a. \<not> is_Call_Start a) tr = []"
  by (induction tr) auto

lemma ignore_calls_dropWhile: "ignore_calls tr = [] \<Longrightarrow> ignore_calls (dropWhile P tr) = []"
  by (auto simp: ignore_calls_Nil_iff dest: set_dropWhileD)

lemma add_phase_calls:
  assumes "add_phase ops fl st rest"
  shows "(\<exists>k. map (\<lambda>(b, p, e). (b, p)) (add_calls rest)
               = take k (map (Pair (recursive fl)) (files st)))
     \<and> (\<forall>b p e. (b, p, Some e) \<in> set (add_calls rest) \<longrightarrow> exited st = Some (Exit_fatal e))
     \<and> (mpc st \<noteq> M_add \<longrightarrow>
          add_calls rest = map (\<lambda>p. (recursive fl, p, None)) (files st))
     \<and> ignore_calls rest = []
     \<and> ((\<exists>a\<in>set rest. is_Call_Start a) \<longrightarrow> mpc st \<noteq> M_add \<and> mpc st \<noteq> M_start)"
proof -
  have ex0: "\<exists>k. [] = take k (map (Pair (recursive fl)) (files st))"
    by (rule exI[of _ 0]) simp
  show ?thesis
  proof (cases "mpc st")
    case M_init
    with assms show ?thesis by (simp add: add_phase_def)
  next
    case M_add
    with assms consider "rest = []"
      | s1 x where "main_add ops fl (files st) s1 = (rest, Inl x)" "exited st = Some x"
      by (auto simp: add_phase_def)
    then show ?thesis
    proof cases
      case 1
      with ex0 M_add show ?thesis by simp
    next
      case 2
      from main_add_calls[OF 2(1)] 2(2) M_add show ?thesis by auto
    qed
  next
    case M_start
    with assms obtain s1 s2 where
      "main_add ops fl (files st) s1 = (rest, Inr (parsedInterval st, s2))"
      by (auto simp: add_phase_def)
    from main_add_calls[OF this] M_start show ?thesis by auto
  next
    case M_in_Start
    with assms obtain s1 s2 tr2 where
      ma: "main_add ops fl (files st) s1 = (tr2, Inr (parsedInterval st, s2))"
      and r: "rest = tr2 @ [Call_Start (parsedInterval st)]
              \<or> (\<exists>err. rest = tr2 @ [Call_Start (parsedInterval st), Log_Fatalln err])"
      by (auto simp: add_phase_def)
    from main_add_calls[OF ma] r M_in_Start show ?thesis
      by (auto simp: add_calls_append ignore_calls_append)
  next
    case M_wait_closed
    with assms obtain s1 s2 tr2 where
      ma: "main_add ops fl (files st) s1 = (tr2, Inr (parsedInterval st, s2))"
      and r: "rest = tr2 @ [Call_Start (parsedInterval st)]"
      by (auto simp: add_phase_def)
    from main_add_calls[OF ma] r M_wait_closed show ?thesis
      by (auto simp: add_calls_append ignore_calls_append)
  next
    case M_returned
    with assms obtain s1 s2 tr2 where
      ma: "main_add ops fl (files st) s1 = (tr2, Inr (parsedInterval st, s2))"
      and r: "rest = tr2 @ [Call_Start (parsedInterval st)]"
      by (auto simp: add_phase_def)
    from main_add_calls[OF ma] r M_returned show ?thesis
      by (auto simp: add_calls_append ignore_calls_append)
  qed
qed

lemma main_init_files:
  "main_init ops fl args s = (tr, Inr cfg) \<Longrightarrow>
     (if args = [] then (\<exists>d. os_Getwd ops s = Inr d \<and> cfg_files cfg = [d])
      else cfg_files cfg = args)"
  by (auto simp: main_init_def resolve_files_def Let_def
        split: if_splits sum.splits prod.splits)

lemma main_init_nowd:
  "args = [] \<Longrightarrow> os_Getwd ops s = Inl e \<Longrightarrow>
     main_init ops fl args s = ([Log_Fatalln e], Inl (Exit_fatal e))"
  by (simp add: main_init_def resolve_files_def)

text \<open>What the main goroutine has done, in the three cases the invariant leaves.\<close>

lemma main_actions_cases:
  fixes ops :: "('s, 'e) world_ops"
  assumes st: "st = run ops fl args s xs"
  obtains
    (not_run) "mpc st = M_init" "exited st = None" "trace st = []"
  | (init_failed) tr x where "main_init ops fl args s = (tr, Inl x)" "mpc st = M_init"
      "exited st = Some x" "actions_of G_main (trace st) = tr"
  | (init_done) tr cfg rest where "main_init ops fl args s = (tr, Inr cfg)" "mpc st \<noteq> M_init"
      "files st = cfg_files cfg" "actions_of G_main (trace st) = tr @ rest"
      "add_phase ops fl st rest"
proof -
  have inv: "main_inv ops fl args s st" unfolding st by (rule main_inv_run)
  obtain tr r where mi: "main_init ops fl args s = (tr, r)"
    by (cases "main_init ops fl args s") auto
  show thesis
  proof (cases r)
    case (Inl x)
    show thesis
    proof (cases "exited st = None")
      case True
      with inv mi Inl show thesis by (intro not_run) (auto simp: main_inv_def)
    next
      case False
      with inv mi Inl show thesis by (intro init_failed[of tr x]) (auto simp: main_inv_def)
    qed
  next
    case (Inr cfg)
    show thesis
    proof (cases "mpc st = M_init")
      case True
      with inv mi Inr show thesis by (intro not_run) (auto simp: main_inv_def)
    next
      case False
      with inv mi Inr obtain rest where
        "files st = cfg_files cfg" "actions_of G_main (trace st) = tr @ rest"
        "add_phase ops fl st rest"
        by (auto simp: main_inv_def)
      with mi Inr False show thesis by (intro init_done[of tr cfg rest]) auto
    qed
  qed
qed

lemma main_has_run:
  "Run_main \<in> set xs \<longleftrightarrow>
     mpc (run ops fl args s xs) \<noteq> M_init \<or> exited (run ops fl args s xs) \<noteq> None"
proof (induction xs rule: rev_induct)
  case Nil
  show ?case by (simp add: run_Nil init_def)
next
  case (snoc x xs)
  let ?st = "run ops fl args s xs"
  have pcs: "pcs_inv ?st" by (rule pcs_inv_run)
  show ?case
  proof (cases "exited ?st = None")
    case False
    with snoc show ?thesis by (simp add: run_snoc step_def)
  next
    case alive: True
    show ?thesis
    proof (cases "mpc ?st = M_init")
      case True
      with pcs have ns: "epc ?st = E_not_started" "spc ?st = S_not_started"
        "cpc ?st = C_not_started" by (simp_all add: pcs_inv_def)
      with snoc alive True show ?thesis
        by (cases x)
           (auto simp: run_snoc step_def main_step_def event_step_def signal_recv_def
              signal_step_def startcmd_step_def start_return_def emit_fields
              split: prod.splits sum.splits)
    next
      case False
      then have "mpc (step ops fl args ?st x) \<noteq> M_init"
        by (cases x; cases "mpc ?st")
           (auto simp: step_def main_step_def event_step_def signal_recv_def
              signal_step_def startcmd_step_def start_return_def emit_fields
              split: prod.splits sum.splits loop_status.splits option.splits)
      with snoc False show ?thesis by (auto simp: run_snoc)
    qed
  qed
qed











text \<open>
  The event goroutine of the state machine is the loop: delivering a list of messages to
  a goroutine that stands in its \<open>select\<close> does what \<open>event_loop\<close> says.
\<close>

lemma steps_exited:
  "exited st \<noteq> None \<Longrightarrow> foldl (step ops fl args) st xs = st"
  by (induction xs) (simp_all add: step_def)

lemma steps_returned:
  "epc st = E_returned \<Longrightarrow> foldl (step ops fl args) st (map Deliver ms) = st"
  by (induction ms) (simp_all add: step_def event_step_def)

lemma deliver_all:
  assumes "exited st = None" and "epc st = E_in_select"
  shows "foldl (step ops fl args) st (map Deliver ms) =
     (case event_loop ops fl (cmdName st) (cmdArgs st) (world st) ms of
        (tr, In_select, s') \<Rightarrow> (emit G_event tr st)\<lparr>world := s'\<rparr>
      | (tr, Returned, s') \<Rightarrow>
          (emit G_event tr st)\<lparr>world := s', epc := E_returned, done_closed := True\<rparr>
      | (tr, Died x, s') \<Rightarrow> (emit G_event tr st)\<lparr>world := s', exited := Some x\<rparr>)"
  using assms
proof (induction ms arbitrary: st)
  case Nil
  then show ?case by (simp add: emit_def)
next
  case (Cons m ms)
  obtain tr ls s' where
    sc: "select_case ops fl (cmdName st) (cmdArgs st) (world st) m = (tr, ls, s')"
    by (cases "select_case ops fl (cmdName st) (cmdArgs st) (world st) m") auto
  show ?case
  proof (cases ls)
    case In_select
    let ?st1 = "(emit G_event (Recv m # tr) st)\<lparr>world := s'\<rparr>"
    have s1: "step ops fl args st (Deliver m) = ?st1"
      using Cons.prems sc In_select by (simp add: step_def event_step_def)
    have p: "exited ?st1 = None" "epc ?st1 = E_in_select"
      using Cons.prems by (simp_all add: emit_fields)
    obtain tr2 ls2 s2 where
      el: "event_loop ops fl (cmdName st) (cmdArgs st) s' ms = (tr2, ls2, s2)"
      by (cases "event_loop ops fl (cmdName st) (cmdArgs st) s' ms") auto
    from Cons.IH[OF p] el sc In_select s1 show ?thesis
      by (cases ls2) (simp_all add: emit_fields emit_def)
  next
    case Returned
    let ?st1 = "(emit G_event (Recv m # tr) st)\<lparr>world := s', epc := E_returned,
                  done_closed := True\<rparr>"
    have s1: "step ops fl args st (Deliver m) = ?st1"
      using Cons.prems sc Returned by (simp add: step_def event_step_def)
    have "foldl (step ops fl args) ?st1 (map Deliver ms) = ?st1"
      by (rule steps_returned) simp
    with s1 sc Returned show ?thesis by simp
  next
    case (Died x)
    let ?st1 = "(emit G_event (Recv m # tr) st)\<lparr>world := s', exited := Some x\<rparr>"
    have s1: "step ops fl args st (Deliver m) = ?st1"
      using Cons.prems sc Died by (simp add: step_def event_step_def)
    have "foldl (step ops fl args) ?st1 (map Deliver ms) = ?st1"
      by (rule steps_exited) simp
    with s1 sc Died show ?thesis by simp
  qed
qed

subsection \<open>The claims\<close>

text \<open>
  C1. For every error the event loop receives on the watcher's \<open>Error\<close> channel: if it
  is \<open>ErrWatchedFileDeleted\<close> the loop prints it and goes on reading the messages that
  follow; any other error is logged by \<open>log.Fatalln\<close>, which ends the process, and
  nothing after it is read.
\<close>

theorem C1_error_channel:
  assumes "event_loop ops fl n a s pre = (tr, In_select, s')"
  shows "event_loop ops fl n a s (pre @ Msg_Error err # post) =
     (if err = ErrWatchedFileDeleted then
        (case event_loop ops fl n a s' post of
           (tr', st, s'') \<Rightarrow> (tr @ [Recv (Msg_Error err), Println_error err] @ tr', st, s''))
      else (tr @ [Recv (Msg_Error err), Log_Fatalln err], Died (Exit_fatal err), s'))"
  using assms by (simp add: event_loop_reach select_case_def split: prod.splits)

theorem C1_error_channel_witness:
  "event_loop demo_ops default_flags [] [] 0
     ([Msg_Event (str ''CREATE a'')] @ Msg_Error ErrWatchedFileDeleted # [Msg_Closed])
    = ([Recv (Msg_Event (str ''CREATE a'')), Println_event (str ''CREATE a''),
        Recv (Msg_Error ErrWatchedFileDeleted), Println_error ErrWatchedFileDeleted,
        Recv Msg_Closed], Returned, 0)
   \<and> event_loop demo_ops default_flags [] [] 0
     ([Msg_Event (str ''CREATE a'')] @ Msg_Error (OtherError ''permission denied'') # [Msg_Closed])
    = ([Recv (Msg_Event (str ''CREATE a'')), Println_event (str ''CREATE a''),
        Recv (Msg_Error (OtherError ''permission denied'')),
        Log_Fatalln (OtherError ''permission denied'')],
       Died (Exit_fatal (OtherError ''permission denied'')), 0)"
proof -
  have pre: "event_loop demo_ops default_flags [] [] 0 [Msg_Event (str ''CREATE a'')]
      = ([Recv (Msg_Event (str ''CREATE a'')), Println_event (str ''CREATE a'')], In_select, 0)"
    by (simp add: select_case_def default_flags_def)
  show ?thesis
    using C1_error_channel[OF pre, of ErrWatchedFileDeleted "[Msg_Closed]"]
      C1_error_channel[OF pre, of "OtherError ''permission denied''" "[Msg_Closed]"]
    by (simp add: select_case_def)
qed



text \<open>
  C3. When the command run for an event exits with a status that is not zero
  (\<open>c.Run()\<close> returns an error and \<open>c.ProcessState\<close> is set and not successful): with
  \<open>-keepalive\<close> the error is logged with \<open>log.Println\<close> and the loop goes on with the
  messages that follow; without it the error goes to \<open>log.Fatalln\<close> and the process
  ends.
\<close>

theorem C3_keepalive_nonzero_exit:
  assumes "event_loop ops fl n a s pre = (tr, In_select, s')"
    and "cmd fl \<noteq> []"
    and "cmd_Run ops s' (event_command ops fl n a ev) = (r, s'')"
    and "run_err r = Some err"
    and "ProcessState r = Some ps"
    and "\<not> Success ps"
  shows "event_loop ops fl n a s (pre @ Msg_Event ev # post) =
     (if keepalive fl then
        (case event_loop ops fl n a s'' post of
           (tr', st, s3) \<Rightarrow>
             (tr @ [Recv (Msg_Event ev), Println_event ev,
                    Run_command (event_command ops fl n a ev) r, Log_Println err] @ tr',
              st, s3))
      else
        (tr @ [Recv (Msg_Event ev), Println_event ev,
               Run_command (event_command ops fl n a ev) r, Log_Fatalln err],
         Died (Exit_fatal err), s''))"
  using assms
  by (simp add: event_loop_reach select_case_def run_or_die_def no_success_def
      split: prod.splits)

theorem C3_keepalive_nonzero_exit_witness:
  "event_loop demo_ops (default_flags\<lparr>cmd := str ''false'', keepalive := True\<rparr>)
       (str ''false'') [] 0 ([] @ Msg_Event (str ''WRITE a'') # [Msg_Closed])
     = ([Recv (Msg_Event (str ''WRITE a'')), Println_event (str ''WRITE a''),
         Run_command \<lparr>Path = str ''false'', Args = [], Stdin = Os_Stdin\<rparr>
           \<lparr>run_err = Some (OtherError ''exit status 1''), ProcessState = Some 1\<rparr>,
         Log_Println (OtherError ''exit status 1''), Recv Msg_Closed], Returned, 1)
   \<and> event_loop demo_ops (default_flags\<lparr>cmd := str ''false''\<rparr>)
       (str ''false'') [] 0 ([] @ Msg_Event (str ''WRITE a'') # [Msg_Closed])
     = ([Recv (Msg_Event (str ''WRITE a'')), Println_event (str ''WRITE a''),
         Run_command \<lparr>Path = str ''false'', Args = [], Stdin = Os_Stdin\<rparr>
           \<lparr>run_err = Some (OtherError ''exit status 1''), ProcessState = Some 1\<rparr>,
         Log_Fatalln (OtherError ''exit status 1'')],
        Died (Exit_fatal (OtherError ''exit status 1'')), 1)"
proof -
  let ?r = "\<lparr>run_err = Some (OtherError ''exit status 1''), ProcessState = Some 1\<rparr>"
  have run1: "cmd_Run demo_ops 0
      (event_command demo_ops (default_flags\<lparr>cmd := str ''false'', keepalive := True\<rparr>)
         (str ''false'') [] (str ''WRITE a'')) = (?r, 1)"
    and run2: "cmd_Run demo_ops 0
      (event_command demo_ops (default_flags\<lparr>cmd := str ''false''\<rparr>)
         (str ''false'') [] (str ''WRITE a'')) = (?r, 1)"
    by (simp_all add: demo_ops_def demo_Run_def event_command_def default_flags_def)
  have c: "cmd (default_flags\<lparr>cmd := str ''false'', keepalive := True\<rparr>) \<noteq> []"
    "cmd (default_flags\<lparr>cmd := str ''false''\<rparr>) \<noteq> []"
    by (simp_all add: str_def)
  have ns: "\<not> Success 1" by (simp add: Success_def)
  show ?thesis
    using
      C3_keepalive_nonzero_exit[where pre = "[]" and post = "[Msg_Closed]", OF _ c(1) run1 _ _ ns]
      C3_keepalive_nonzero_exit[where pre = "[]" and post = "[Msg_Closed]", OF _ c(2) run2 _ _ ns]
    by (simp add: select_case_def event_command_def default_flags_def)
qed




text \<open>
  C5. With a command configured, the event loop runs it once for every event it
  receives, in order, and for nothing else: the name and arguments are the fields of
  the \<open>-cmd\<close> flag, and the standard input is a reader over \<open>event.String()\<close> when
  \<open>-pipe\<close> is set and the process's own standard input otherwise.
\<close>

theorem C5_command_per_event:
  assumes "event_loop ops fl n a s ms = (tr, st, s')"
    and "cmd fl \<noteq> []"
    and "parse_cmd (cmd fl) = Inr (n, a)"
  shows "commands_run tr =
           map (\<lambda>ev. \<lparr>Path = n, Args = a,
                       Stdin = (if stdinPipe fl then Reader (event_String ops ev) else Os_Stdin)\<rparr>)
               (events_received tr)
         \<and> n # a = strings_FieldsFunc (cmd fl) unicode_IsSpace"
proof -
  have "(\<lambda>ev. \<lparr>Path = n, Args = a,
                Stdin = (if stdinPipe fl then Reader (event_String ops ev) else Os_Stdin)\<rparr>)
        = event_command ops fl n a"
    by (simp add: event_command_def fun_eq_iff)
  with event_loop_commands[OF assms(1)] assms(2) parse_cmd_fields[OF assms(2,3)]
  show ?thesis by simp
qed

theorem C5_command_per_event_witness:
  "commands_run
     (fst (event_loop demo_ops (default_flags\<lparr>cmd := str ''wc -c'', stdinPipe := True\<rparr>)
        (str ''wc'') [str ''-c''] 0
        [Msg_Event (str ''CREATE a''), Msg_Error ErrWatchedFileDeleted, Msg_Event (str ''WRITE a'')]))
     = [\<lparr>Path = str ''wc'', Args = [str ''-c''], Stdin = Reader (str ''CREATE a'')\<rparr>,
        \<lparr>Path = str ''wc'', Args = [str ''-c''], Stdin = Reader (str ''WRITE a'')\<rparr>]
   \<and> commands_run
     (fst (event_loop demo_ops (default_flags\<lparr>cmd := str ''wc -c''\<rparr>)
        (str ''wc'') [str ''-c''] 0
        [Msg_Event (str ''CREATE a''), Msg_Error ErrWatchedFileDeleted, Msg_Event (str ''WRITE a'')]))
     = [\<lparr>Path = str ''wc'', Args = [str ''-c''], Stdin = Os_Stdin\<rparr>,
        \<lparr>Path = str ''wc'', Args = [str ''-c''], Stdin = Os_Stdin\<rparr>]"
proof -
  let ?ms = "[Msg_Event (str ''CREATE a''), Msg_Error ErrWatchedFileDeleted,
              Msg_Event (str ''WRITE a'')] :: gostring select_msg list"
  let ?f1 = "default_flags\<lparr>cmd := str ''wc -c'', stdinPipe := True\<rparr>"
  let ?f2 = "default_flags\<lparr>cmd := str ''wc -c''\<rparr>"
  let ?ok = "\<lparr>run_err = None, ProcessState = Some 0\<rparr>"
  let ?T = "\<lambda>i1 i2. [Recv (Msg_Event (str ''CREATE a'')), Println_event (str ''CREATE a''),
       Run_command \<lparr>Path = str ''wc'', Args = [str ''-c''], Stdin = i1\<rparr> ?ok,
       Recv (Msg_Error ErrWatchedFileDeleted), Println_error ErrWatchedFileDeleted,
       Recv (Msg_Event (str ''WRITE a'')), Println_event (str ''WRITE a''),
       Run_command \<lparr>Path = str ''wc'', Args = [str ''-c''], Stdin = i2\<rparr> ?ok]"
  have p: "parse_cmd (cmd ?f1) = Inr (str ''wc'', [str ''-c''])"
    "parse_cmd (cmd ?f2) = Inr (str ''wc'', [str ''-c''])"
    by (simp_all add: parse_cmd_def str_def strings_FieldsFunc_def unicode_IsSpace_def
          index_go_def)
  have ne: "cmd ?f1 \<noteq> []" "cmd ?f2 \<noteq> []" by (simp_all add: str_def)
  have wc: "str ''wc'' \<noteq> str ''false''" "str ''wc'' \<noteq> str ''nosuch''"
    by (simp_all add: str_def)
  have e1: "event_loop demo_ops ?f1 (str ''wc'') [str ''-c''] 0 ?ms
      = (?T (Reader (str ''CREATE a'')) (Reader (str ''WRITE a'')), In_select, 2)"
    by (simp add: select_case_def run_or_die_def demo_ops_def demo_Run_def event_command_def
          default_flags_def wc ne[simplified])
  have e2: "event_loop demo_ops ?f2 (str ''wc'') [str ''-c''] 0 ?ms
      = (?T Os_Stdin Os_Stdin, In_select, 2)"
    by (simp add: select_case_def run_or_die_def demo_ops_def demo_Run_def event_command_def
          default_flags_def wc ne[simplified])
  have a1: "commands_run (?T (Reader (str ''CREATE a'')) (Reader (str ''WRITE a'')))
      = [\<lparr>Path = str ''wc'', Args = [str ''-c''], Stdin = Reader (str ''CREATE a'')\<rparr>,
         \<lparr>Path = str ''wc'', Args = [str ''-c''], Stdin = Reader (str ''WRITE a'')\<rparr>]"
    using C5_command_per_event[OF e1 ne(1) p(1)]
    by (simp add: demo_ops_def default_flags_def)
  have a2: "commands_run (?T Os_Stdin Os_Stdin)
      = [\<lparr>Path = str ''wc'', Args = [str ''-c''], Stdin = Os_Stdin\<rparr>,
         \<lparr>Path = str ''wc'', Args = [str ''-c''], Stdin = Os_Stdin\<rparr>]"
    using C5_command_per_event[OF e2 ne(2) p(2)]
    by (simp add: demo_ops_def default_flags_def)
  show ?thesis
    unfolding e1 e2 fst_conv using a1 a2 by (rule conjI)
qed

text \<open>
  C6. Every piece of the comma-separated \<open>-ignore\<close> value that is not empty once
  trimmed is passed, trimmed, to \<open>w.Ignore\<close>, in order, by the main goroutine in its
  first stretch of code: the calls made are always a prefix of those pieces; once
  \<open>main\<close> is past that stretch all of them have been made and have returned \<open>nil\<close>; a
  call that returns an error ends the process with that error; and from the call of
  \<open>w.Start\<close> on there is no call of \<open>w.Ignore\<close>.
\<close>

theorem C6_ignore_before_watching:
  fixes ops :: "('s, 'e) world_ops"
  shows
  "(let st = run ops fl args s xs;
        acts = actions_of G_main (trace st);
        entries = filter (\<lambda>p. p \<noteq> []) (map strings_TrimSpace (strings_Split (ignore fl) 44))
    in (\<exists>k. map fst (ignore_calls acts) = take k entries)
       \<and> (mpc st \<noteq> M_init \<longrightarrow> ignore_calls acts = map (\<lambda>p. (p, None)) entries)
       \<and> (\<forall>p e. (p, Some e) \<in> set (ignore_calls acts) \<longrightarrow> exited st = Some (Exit_fatal e))
       \<and> ((\<exists>a\<in>set acts. is_Call_Start a) \<longrightarrow> mpc st \<noteq> M_init)
       \<and> ignore_calls (dropWhile (\<lambda>a. \<not> is_Call_Start a) acts) = [])"
proof -
  define st where "st = run ops fl args s xs"
  define acts where "acts = actions_of G_main (trace st)"
  have ex0: "\<exists>k. [] = take k (ignore_entries fl)" by (rule exI[of _ 0]) simp
  have "(\<exists>k. map fst (ignore_calls acts) = take k (ignore_entries fl))
       \<and> (mpc st \<noteq> M_init \<longrightarrow> ignore_calls acts = map (\<lambda>p. (p, None)) (ignore_entries fl))
       \<and> (\<forall>p e. (p, Some e) \<in> set (ignore_calls acts) \<longrightarrow> exited st = Some (Exit_fatal e))
       \<and> ((\<exists>a\<in>set acts. is_Call_Start a) \<longrightarrow> mpc st \<noteq> M_init)
       \<and> ignore_calls (dropWhile (\<lambda>a. \<not> is_Call_Start a) acts) = []"
  using st_def
  proof (cases rule: main_actions_cases)
    case not_run
    then have "acts = []" by (simp add: acts_def actions_of_def)
    with ex0 not_run show ?thesis by simp
  next
    case (init_failed tr x)
    have a: "acts = tr" using init_failed by (simp add: acts_def)
    note I = main_init_calls[OF init_failed(1)]
    have dw: "ignore_calls (dropWhile (\<lambda>a. \<not> is_Call_Start a) acts) = []"
      using I by (simp add: a no_start_dropWhile)
    have "\<not> (\<exists>a\<in>set acts. is_Call_Start a)" using I by (simp add: a)
    moreover have "\<forall>p e. (p, Some e) \<in> set (ignore_calls acts) \<longrightarrow> exited st = Some (Exit_fatal e)"
      using I init_failed(3) by (auto simp: a)
    moreover have "\<exists>k. map fst (ignore_calls acts) = take k (ignore_entries fl)"
      using I by (simp add: a)
    ultimately show ?thesis using dw init_failed(2) by blast
  next
    case (init_done tr cfg rest)
    have a: "acts = tr @ rest" using init_done by (simp add: acts_def)
    note I = main_init_calls[OF init_done(1)]
    note A = add_phase_calls[OF init_done(5)]
    have d: "dropWhile (\<lambda>a. \<not> is_Call_Start a) (tr @ rest)
               = dropWhile (\<lambda>a. \<not> is_Call_Start a) rest"
      using I by (simp add: dropWhile_append2)
    have k: "\<exists>k. map fst (ignore_calls acts) = take k (ignore_entries fl)"
      using I A by (auto simp: a ignore_calls_append)
    have rest: "ignore_calls acts = map (\<lambda>p. (p, None)) (ignore_entries fl)"
      using I A by (simp add: a ignore_calls_append)
    have f: "\<forall>p e. (p, Some e) \<in> set (ignore_calls acts) \<longrightarrow> exited st = Some (Exit_fatal e)"
      using rest by auto
    have dw: "ignore_calls (dropWhile (\<lambda>a. \<not> is_Call_Start a) acts) = []"
      using A by (simp add: a d ignore_calls_dropWhile)
    from k rest f dw init_done(2) show ?thesis by simp
  qed
  then show ?thesis
    by (simp add: Let_def st_def acts_def ignore_entries_def)
qed


theorem C6_ignore_before_watching_witness:
  "(let st = run demo_ops (default_flags\<lparr>ignore := str ''a, ,b''\<rparr>) [] 0
               [Run_main, Run_main, Run_main]
    in mpc st = M_in_Start
       \<and> ignore_calls (actions_of G_main (trace st)) = [(str ''a'', None), (str ''b'', None)])
   \<and> (let st = run demo_ops (default_flags\<lparr>ignore := str ''a,missing ,b''\<rparr>) [] 0
               [Run_main, Run_main]
    in ignore_calls (actions_of G_main (trace st))
           = [(str ''a'', None),
              (str ''missing'', Some (OtherError ''no such file or directory''))]
       \<and> exited st = Some (Exit_fatal (OtherError ''no such file or directory'')))"
proof -
  let ?f1 = "default_flags\<lparr>ignore := str ''a, ,b''\<rparr>"
  let ?f2 = "default_flags\<lparr>ignore := str ''a,missing ,b''\<rparr>"
  let ?st1 = "run demo_ops ?f1 [] 0 [Run_main, Run_main, Run_main]"
  let ?st2 = "run demo_ops ?f2 [] 0 [Run_main, Run_main]"
  have m1: "mpc ?st1 = M_in_Start" by code_simp
  have en: "filter (\<lambda>p. p \<noteq> []) (map strings_TrimSpace (strings_Split (ignore ?f1) 44))
              = [str ''a'', str ''b'']" by code_simp
  have c2: "ignore_calls (actions_of G_main (trace ?st2))
           = [(str ''a'', None),
              (str ''missing'', Some (OtherError ''no such file or directory''))]"
    by code_simp
  from C6_ignore_before_watching[of demo_ops ?f1 "[]" 0 "[Run_main, Run_main, Run_main]"] m1 en
  have a: "ignore_calls (actions_of G_main (trace ?st1)) = [(str ''a'', None), (str ''b'', None)]"
    by (simp add: Let_def)
  from C6_ignore_before_watching[of demo_ops ?f2 "[]" 0 "[Run_main, Run_main]"] c2
  have b: "exited ?st2 = Some (Exit_fatal (OtherError ''no such file or directory''))"
    by (simp add: Let_def)
  from m1 a b c2 show ?thesis by (simp add: Let_def)
qed

text \<open>
  C7. Every positional argument is registered by the main goroutine, in order: with
  \<open>w.AddRecursive\<close> when \<open>-recursive\<close> is set, which is the default, and with \<open>w.Add\<close>
  when it is not. The calls made are always a prefix of the arguments; once \<open>main\<close>
  is past the loop (and so before \<open>w.Start\<close> is called) every argument has been
  registered with \<open>nil\<close> returned; a registration that returns an error ends the
  process with that error.
\<close>

theorem C7_add_each_argument:
  fixes ops :: "('s, 'e) world_ops"
  assumes "args \<noteq> []"
  shows
  "(let st = run ops fl args s xs;
        acts = actions_of G_main (trace st);
        calls = add_calls acts
    in (\<exists>k. map (\<lambda>(b, p, e). (b, p)) calls = take k (map (Pair (recursive fl)) args))
       \<and> (mpc st \<noteq> M_init \<and> mpc st \<noteq> M_add \<longrightarrow>
            calls = map (\<lambda>p. (recursive fl, p, None)) args)
       \<and> (\<forall>b p e. (b, p, Some e) \<in> set calls \<longrightarrow> exited st = Some (Exit_fatal e))
       \<and> ((\<exists>a\<in>set acts. is_Call_Start a) \<longrightarrow> mpc st \<noteq> M_init \<and> mpc st \<noteq> M_add))
   \<and> recursive default_flags"
proof -
  define st where "st = run ops fl args s xs"
  define acts where "acts = actions_of G_main (trace st)"
  have ex0: "\<exists>k. [] = take k (map (Pair (recursive fl)) args)" by (rule exI[of _ 0]) simp
  have "(\<exists>k. map (\<lambda>(b, p, e). (b, p)) (add_calls acts) = take k (map (Pair (recursive fl)) args))
       \<and> (mpc st \<noteq> M_init \<and> mpc st \<noteq> M_add \<longrightarrow>
            add_calls acts = map (\<lambda>p. (recursive fl, p, None)) args)
       \<and> (\<forall>b p e. (b, p, Some e) \<in> set (add_calls acts) \<longrightarrow> exited st = Some (Exit_fatal e))
       \<and> ((\<exists>a\<in>set acts. is_Call_Start a) \<longrightarrow> mpc st \<noteq> M_init \<and> mpc st \<noteq> M_add)"
  using st_def
  proof (cases rule: main_actions_cases)
    case not_run
    then have "acts = []" by (simp add: acts_def actions_of_def)
    with ex0 not_run show ?thesis by simp
  next
    case (init_failed tr x)
    have a: "acts = tr" using init_failed by (simp add: acts_def)
    from main_init_calls[OF init_failed(1)] init_failed(2) ex0
    show ?thesis by (simp add: a)
  next
    case (init_done tr cfg rest)
    have a: "acts = tr @ rest" using init_done by (simp add: acts_def)
    note I = main_init_calls[OF init_done(1)]
    note A = add_phase_calls[OF init_done(5)]
    have f: "files st = args"
      using main_init_files[OF init_done(1)] init_done(3) assms by simp
    have c: "add_calls acts = add_calls rest" using I by (simp add: a add_calls_append)
    have s: "(\<exists>a\<in>set acts. is_Call_Start a) \<longleftrightarrow> (\<exists>a\<in>set rest. is_Call_Start a)"
      using I by (auto simp: a)
    from A init_done(2) show ?thesis unfolding c s f by blast
  qed
  then show ?thesis
    by (simp add: Let_def st_def acts_def default_flags_def)
qed

theorem C7_add_each_argument_witness:
  "(let st = run demo_ops default_flags [str ''src'', str ''doc''] 0
               [Run_main, Run_main, Run_main]
    in mpc st = M_in_Start
       \<and> add_calls (actions_of G_main (trace st))
            = [(True, str ''src'', None), (True, str ''doc'', None)])
   \<and> (let st = run demo_ops (default_flags\<lparr>recursive := False\<rparr>) [str ''src'', str ''missing''] 0
               [Run_main, Run_main, Run_main]
    in add_calls (actions_of G_main (trace st))
            = [(False, str ''src'', None),
               (False, str ''missing'', Some (OtherError ''no such file or directory''))]
       \<and> exited st = Some (Exit_fatal (OtherError ''no such file or directory'')))"
proof -
  let ?f2 = "default_flags\<lparr>recursive := False\<rparr>"
  let ?a1 = "[str ''src'', str ''doc'']"
  let ?a2 = "[str ''src'', str ''missing'']"
  let ?st1 = "run demo_ops default_flags ?a1 0 [Run_main, Run_main, Run_main]"
  let ?st2 = "run demo_ops ?f2 ?a2 0 [Run_main, Run_main, Run_main]"
  have m1: "mpc ?st1 = M_in_Start" by code_simp
  have r1: "recursive default_flags" by (simp add: default_flags_def)
  have c2: "add_calls (actions_of G_main (trace ?st2))
            = [(False, str ''src'', None),
               (False, str ''missing'', Some (OtherError ''no such file or directory''))]"
    by code_simp
  have ne: "?a1 \<noteq> []" "?a2 \<noteq> []" by simp_all
  from C7_add_each_argument[OF ne(1), of demo_ops default_flags 0 "[Run_main, Run_main, Run_main]"]
    m1 r1
  have a: "add_calls (actions_of G_main (trace ?st1))
            = [(True, str ''src'', None), (True, str ''doc'', None)]"
    by (simp add: Let_def)
  from C7_add_each_argument[OF ne(2), of demo_ops ?f2 0 "[Run_main, Run_main, Run_main]"] c2
  have b: "exited ?st2 = Some (Exit_fatal (OtherError ''no such file or directory''))"
    by (auto simp: Let_def)
  from m1 a b c2 show ?thesis by (simp add: Let_def)
qed

text \<open>
  C8. When the \<open>-cmd\<close> value is not empty, \<open>main\<close> reads element 0 of its
  white-space split. The read is in bounds exactly when the value has a rune that is
  not white space: the guard tests the string, not the split, so a value of white
  space only panics, and an empty value is never split.
\<close>

theorem C8_cmd_index_in_bounds:
  "(c \<noteq> [] \<longrightarrow>
      ((\<exists>x. index_go (strings_FieldsFunc c unicode_IsSpace) 0 = Inr x)
         \<longleftrightarrow> (\<exists>r\<in>set c. \<not> unicode_IsSpace r))
      \<and> (parse_cmd c = Inl Exit_panic
         \<longleftrightarrow> index_go (strings_FieldsFunc c unicode_IsSpace) 0 = Inl Exit_panic)
      \<and> (parse_cmd c = Inl Exit_panic \<longleftrightarrow> (\<forall>r\<in>set c. unicode_IsSpace r))
      \<and> ((\<exists>r\<in>set c. \<not> unicode_IsSpace r) \<longrightarrow>
            (\<exists>name args. parse_cmd c = Inr (name, args)
               \<and> name # args = strings_FieldsFunc c unicode_IsSpace)))
   \<and> (c = [] \<longrightarrow> parse_cmd c = Inr ([], []))"
proof (intro conjI impI)
  assume ne: "c \<noteq> []"
  show "(\<exists>x. index_go (strings_FieldsFunc c unicode_IsSpace) 0 = Inr x)
          \<longleftrightarrow> (\<exists>r\<in>set c. \<not> unicode_IsSpace r)"
    by (simp add: index_go_0 FieldsFunc_empty)
  show "parse_cmd c = Inl Exit_panic
          \<longleftrightarrow> index_go (strings_FieldsFunc c unicode_IsSpace) 0 = Inl Exit_panic"
    using ne by (auto simp: parse_cmd_def Let_def split: sum.splits)
  show "parse_cmd c = Inl Exit_panic \<longleftrightarrow> (\<forall>r\<in>set c. unicode_IsSpace r)"
    using ne
    by (auto simp: parse_cmd_def Let_def index_go_def FieldsFunc_empty
        split: sum.splits if_splits)
  assume "\<exists>r\<in>set c. \<not> unicode_IsSpace r"
  then have "strings_FieldsFunc c unicode_IsSpace \<noteq> []"
    by (auto simp: FieldsFunc_empty)
  then obtain x xs where sp: "strings_FieldsFunc c unicode_IsSpace = x # xs"
    by (cases "strings_FieldsFunc c unicode_IsSpace") auto
  show "\<exists>name args. parse_cmd c = Inr (name, args)
             \<and> name # args = strings_FieldsFunc c unicode_IsSpace"
    using ne sp by (cases xs) (auto simp: parse_cmd_def Let_def index_go_def)
next
  assume "c = []"
  then show "parse_cmd c = Inr ([], [])"
    by (simp add: parse_cmd_def)
qed

theorem C8_cmd_index_in_bounds_witness:
  "parse_cmd (str ''  '') = Inl Exit_panic
   \<and> parse_cmd (str ''ls -l'') = Inr (str ''ls'', [str ''-l''])
   \<and> parse_cmd [] = Inr ([], [])"
  using C8_cmd_index_in_bounds[of "str ''  ''"] C8_cmd_index_in_bounds[of "str ''ls -l''"]
    C8_cmd_index_in_bounds[of "[]"]
  by (simp add: str_def strings_FieldsFunc_def unicode_IsSpace_def index_go_def)

text \<open>
  C9. With \<open>-keepalive\<close>, the loop also goes on when the command fails without any
  exit status (\<open>c.Run()\<close> returns an error and \<open>c.ProcessState\<close> is \<open>nil\<close>, as when the
  command cannot be started): the error is logged with \<open>log.Println\<close> and the messages
  that follow are read.
\<close>

theorem C9_keepalive_not_started:
  assumes "event_loop ops fl n a s pre = (tr, In_select, s')"
    and "cmd fl \<noteq> []"
    and "keepalive fl"
    and "cmd_Run ops s' (event_command ops fl n a ev) = (r, s'')"
    and "run_err r = Some err"
    and "ProcessState r = None"
  shows "event_loop ops fl n a s (pre @ Msg_Event ev # post) =
        (case event_loop ops fl n a s'' post of
           (tr', st, s3) \<Rightarrow>
             (tr @ [Recv (Msg_Event ev), Println_event ev,
                    Run_command (event_command ops fl n a ev) r, Log_Println err] @ tr',
              st, s3))"
  using assms
  by (simp add: event_loop_reach select_case_def run_or_die_def no_success_def
      split: prod.splits)

theorem C9_keepalive_not_started_witness:
  "event_loop demo_ops (default_flags\<lparr>cmd := str ''nosuch'', keepalive := True\<rparr>)
       (str ''nosuch'') [] 0 ([] @ Msg_Event (str ''WRITE a'') # [Msg_Closed])
     = ([Recv (Msg_Event (str ''WRITE a'')), Println_event (str ''WRITE a''),
         Run_command \<lparr>Path = str ''nosuch'', Args = [], Stdin = Os_Stdin\<rparr>
           \<lparr>run_err = Some (OtherError ''executable file not found''), ProcessState = None\<rparr>,
         Log_Println (OtherError ''executable file not found''), Recv Msg_Closed], Returned, 1)"
proof -
  let ?fl = "default_flags\<lparr>cmd := str ''nosuch'', keepalive := True\<rparr>"
  let ?r = "\<lparr>run_err = Some (OtherError ''executable file not found''), ProcessState = None\<rparr>"
  have run1: "cmd_Run demo_ops 0
      (event_command demo_ops ?fl (str ''nosuch'') [] (str ''WRITE a'')) = (?r, 1)"
    by (simp add: demo_ops_def demo_Run_def event_command_def default_flags_def str_def)
  have c: "cmd ?fl \<noteq> []" "keepalive ?fl"
    by (simp_all add: str_def)
  show ?thesis
    using C9_keepalive_not_started[where pre = "[]" and post = "[Msg_Closed]", OF _ c run1]
    by (simp add: select_case_def event_command_def default_flags_def)
qed

text \<open>
  C10. With no positional argument the one root is the working directory: the only
  registration the main goroutine makes is that of \<open>os.Getwd()\<close>, through
  \<open>w.AddRecursive\<close> or \<open>w.Add\<close> as the \<open>-recursive\<close> flag says, and once \<open>main\<close> is
  past the loop it has been made with \<open>nil\<close> returned. When \<open>os.Getwd()\<close> fails, the
  first thing \<open>main\<close> does is \<open>log.Fatalln\<close> of that error: nothing is registered and
  the process has ended as soon as \<open>main\<close> has run.
\<close>

theorem C10_no_arguments:
  fixes ops :: "('s, 'e) world_ops"
  shows
  "(\<forall>d. os_Getwd ops s = Inr d \<longrightarrow>
      (let st = run ops fl [] s xs;
           calls = add_calls (actions_of G_main (trace st))
       in (\<exists>k. map (\<lambda>(b, p, e). (b, p)) calls = take k [(recursive fl, d)])
          \<and> (mpc st \<noteq> M_init \<longrightarrow> files st = [d])
          \<and> (mpc st \<noteq> M_init \<and> mpc st \<noteq> M_add \<longrightarrow> calls = [(recursive fl, d, None)])
          \<and> (\<forall>b p e. (b, p, Some e) \<in> set calls \<longrightarrow> exited st = Some (Exit_fatal e))))
   \<and> (\<forall>e. os_Getwd ops s = Inl e \<longrightarrow>
      (let st = run ops fl [] s xs
       in mpc st = M_init
          \<and> add_calls (actions_of G_main (trace st)) = []
          \<and> (if Run_main \<in> set xs
              then exited st = Some (Exit_fatal e)
                   \<and> actions_of G_main (trace st) = [Log_Fatalln e]
              else exited st = None \<and> trace st = [])))"
proof (intro conjI allI impI)
  fix d assume wd: "os_Getwd ops s = Inr d"
  define st where "st = run ops fl [] s xs"
  define acts where "acts = actions_of G_main (trace st)"
  have ex0: "\<exists>k. [] = take k [(recursive fl, d)]" by (rule exI[of _ 0]) simp
  have "(\<exists>k. map (\<lambda>(b, p, e). (b, p)) (add_calls acts) = take k [(recursive fl, d)])
          \<and> (mpc st \<noteq> M_init \<longrightarrow> files st = [d])
          \<and> (mpc st \<noteq> M_init \<and> mpc st \<noteq> M_add \<longrightarrow> add_calls acts = [(recursive fl, d, None)])
          \<and> (\<forall>b p e. (b, p, Some e) \<in> set (add_calls acts) \<longrightarrow> exited st = Some (Exit_fatal e))"
  using st_def
  proof (cases rule: main_actions_cases)
    case not_run
    then have "acts = []" by (simp add: acts_def actions_of_def)
    with ex0 not_run show ?thesis by simp
  next
    case (init_failed tr x)
    have a: "acts = tr" using init_failed by (simp add: acts_def)
    from main_init_calls[OF init_failed(1)] init_failed(2) ex0
    show ?thesis by (simp add: a)
  next
    case (init_done tr cfg rest)
    have a: "acts = tr @ rest" using init_done by (simp add: acts_def)
    note I = main_init_calls[OF init_done(1)]
    note A = add_phase_calls[OF init_done(5)]
    have f: "files st = [d]"
      using main_init_files[OF init_done(1)] init_done(3) wd by simp
    have c: "add_calls acts = add_calls rest" using I by (simp add: a add_calls_append)
    from A init_done(2) show ?thesis unfolding c f by auto
  qed
  then show "let st = run ops fl [] s xs;
           calls = add_calls (actions_of G_main (trace st))
       in (\<exists>k. map (\<lambda>(b, p, e). (b, p)) calls = take k [(recursive fl, d)])
          \<and> (mpc st \<noteq> M_init \<longrightarrow> files st = [d])
          \<and> (mpc st \<noteq> M_init \<and> mpc st \<noteq> M_add \<longrightarrow> calls = [(recursive fl, d, None)])
          \<and> (\<forall>b p e. (b, p, Some e) \<in> set calls \<longrightarrow> exited st = Some (Exit_fatal e))"
    by (simp add: Let_def st_def acts_def)
next
  fix e assume wd: "os_Getwd ops s = Inl e"
  define st where "st = run ops fl [] s xs"
  note mi = main_init_nowd[OF refl wd, of fl]
  have "mpc st = M_init
          \<and> add_calls (actions_of G_main (trace st)) = []
          \<and> (if Run_main \<in> set xs
              then exited st = Some (Exit_fatal e)
                   \<and> actions_of G_main (trace st) = [Log_Fatalln e]
              else exited st = None \<and> trace st = [])"
  using st_def
  proof (cases rule: main_actions_cases)
    case not_run
    with main_has_run[of xs ops fl "[]" s] show ?thesis
      by (simp add: st_def actions_of_def)
  next
    case (init_failed tr x)
    with mi main_has_run[of xs ops fl "[]" s] show ?thesis
      by (simp add: st_def)
  next
    case (init_done tr cfg rest)
    with mi show ?thesis by simp
  qed
  then show "let st = run ops fl [] s xs
       in mpc st = M_init
          \<and> add_calls (actions_of G_main (trace st)) = []
          \<and> (if Run_main \<in> set xs
              then exited st = Some (Exit_fatal e)
                   \<and> actions_of G_main (trace st) = [Log_Fatalln e]
              else exited st = None \<and> trace st = [])"
    unfolding Let_def st_def by blast
qed

theorem C10_no_arguments_witness:
  "(let st = run demo_ops (default_flags\<lparr>recursive := False\<rparr>) [] 0
               [Run_main, Run_main, Run_main]
    in mpc st = M_in_Start \<and> files st = [str ''/home/u'']
       \<and> add_calls (actions_of G_main (trace st)) = [(False, str ''/home/u'', None)])
   \<and> (let st = run demo_ops_nowd default_flags [] 0 [Deliver Msg_Closed, Run_main, Run_main]
    in exited st = Some (Exit_fatal (OtherError ''getwd: no such directory''))
       \<and> actions_of G_main (trace st) = [Log_Fatalln (OtherError ''getwd: no such directory'')])"
proof -
  let ?f1 = "default_flags\<lparr>recursive := False\<rparr>"
  let ?st1 = "run demo_ops ?f1 [] 0 [Run_main, Run_main, Run_main]"
  let ?xs2 = "[Deliver Msg_Closed, Run_main, Run_main] :: gostring sched list"
  let ?st2 = "run demo_ops_nowd default_flags [] 0 ?xs2"
  have m1: "mpc ?st1 = M_in_Start" by code_simp
  have wd1: "os_Getwd demo_ops 0 = Inr (str ''/home/u'')" by (simp add: demo_ops_def)
  have wd2: "os_Getwd demo_ops_nowd 0 = Inl (OtherError ''getwd: no such directory'')"
    by (simp add: demo_ops_nowd_def)
  have r: "Run_main \<in> set ?xs2" by simp
  note T1 = C10_no_arguments[of demo_ops 0 ?f1 "[Run_main, Run_main, Run_main]"]
  note T2 = C10_no_arguments[of demo_ops_nowd 0 default_flags ?xs2]
  from T1 wd1 m1
  have a: "files ?st1 = [str ''/home/u'']"
    "add_calls (actions_of G_main (trace ?st1)) = [(False, str ''/home/u'', None)]"
    by (simp_all add: Let_def)
  from T2 wd2 r
  have b: "exited ?st2 = Some (Exit_fatal (OtherError ''getwd: no such directory''))"
    "actions_of G_main (trace ?st2) = [Log_Fatalln (OtherError ''getwd: no such directory'')]"
    by (simp_all add: Let_def)
  from m1 a b show ?thesis by (simp add: Let_def)
qed

end
